theory Spec2Isabelle
  imports Main
begin

section \<open>Data model\<close>

text \<open>
  The document graph maps node ids to nodes. Three kinds of node matter here:
  annotations (\<open>id\<close>, \<open>type\<close>, \<open>path\<close>, \<open>range\<close>), containers or views (an ordered
  \<open>nodes\<close> sequence of ids) and all other content nodes (a list of named properties).
  Offsets are JavaScript numbers used as integers, modelled as \<open>int\<close>.
\<close>

datatype pvalue =
  RangeValue "int \<times> int"
  | StringValue string
  | NumberValue int
  | ListValue "string list"

record annotation =
  anno_id :: string
  anno_type :: string
  anno_path :: "string list"
  anno_range :: "int \<times> int"

datatype node =
  Annotation annotation
  | Container string string "string list"
  | Content string string "(string \<times> pvalue) list"

fun node_id :: "node \<Rightarrow> string" where
  "node_id (Annotation a) = anno_id a"
| "node_id (Container i t ns) = i"
| "node_id (Content i t ps) = i"

fun node_type :: "node \<Rightarrow> string" where
  "node_type (Annotation a) = anno_type a"
| "node_type (Container i t ns) = t"
| "node_type (Content i t ps) = t"

type_synonym graph = "string \<rightharpoonup> node"

datatype error =
  DocumentError string
  | DuplicateIdError
  | UnknownNodeError
  | OperationError
  | NestedTransactionError
  | TypeError
  | ListenerError string

subsection \<open>Graph primitives used by the annotator\<close>

text \<open>
  Modelled from the spec: \<open>create\<close>, \<open>delete\<close> and \<open>set\<close> of the operational graph
  (package substance-data, not part of the sources). \<open>create(node)\<close> fails with
  \<open>DuplicateIdError\<close> if the id already exists, \<open>delete(id)\<close> fails with
  \<open>UnknownNodeError\<close> if the id is absent, \<open>set\<close> replaces a property wholesale.
  A failing call leaves the graph as it was.
\<close>

definition graph_create :: "node \<Rightarrow> graph \<Rightarrow> error + graph" where
  "graph_create n g =
     (if g (node_id n) \<noteq> None then Inl DuplicateIdError else Inr (g(node_id n \<mapsto> n)))"

definition graph_delete :: "string \<Rightarrow> graph \<Rightarrow> error + graph" where
  "graph_delete i g = (if g i = None then Inl UnknownNodeError else Inr (g(i := None)))"

definition graph_set_range :: "string \<Rightarrow> int \<times> int \<Rightarrow> graph \<Rightarrow> error + graph" where
  "graph_set_range i r g =
     (case g i of
        Some (Annotation a) \<Rightarrow> Inr (g(i \<mapsto> Annotation (a\<lparr>anno_range := r\<rparr>)))
      | Some other \<Rightarrow> Inl OperationError
      | None \<Rightarrow> Inl UnknownNodeError)"

section \<open>Annotator (src/src/annotator.js)\<close>

text \<open>
  The behaviour descriptor of a document class: \<open>groups\<close> maps an annotation type to
  its exclusivity group, \<open>split\<close> lists the splittable types, \<open>expansion\<close> gives the
  optional \<open>left\<close> and \<open>right\<close> predicates of a type.
\<close>

record behavior =
  groups :: "string \<rightharpoonup> string"
  split :: "string list"
  expansion :: "string \<rightharpoonup> ((annotation \<Rightarrow> bool) option \<times> (annotation \<Rightarrow> bool) option)"

definition isOnNodeStart :: "annotation \<Rightarrow> bool" where
  "isOnNodeStart a = (fst (anno_range a) = 0)"

definition defaultBehavior :: behavior where
  "defaultBehavior =
     \<lparr> groups = [''emphasis'' \<mapsto> ''style'', ''strong'' \<mapsto> ''style'', ''link'' \<mapsto> ''style'',
                 ''question'' \<mapsto> ''marker'', ''idea'' \<mapsto> ''marker'', ''error'' \<mapsto> ''marker''],
       split = [''emphasis'', ''strong''],
       expansion = [''emphasis'' \<mapsto> (Some isOnNodeStart, None),
                    ''strong'' \<mapsto> (Some isOnNodeStart, None)] \<rparr>"

text \<open>\<open>isExclusive\<close>: \<open>this.groups[type1] === this.groups[type2]\<close>; a missing key reads
  as \<open>undefined\<close>, here \<open>None\<close>.\<close>

definition isExclusive :: "behavior \<Rightarrow> string \<Rightarrow> string \<Rightarrow> bool" where
  "isExclusive self type1 type2 = (groups self type1 = groups self type2)"

text \<open>\<open>isSplittable\<close>: \<open>this.split.indexOf(type) >= 0\<close>.\<close>

definition isSplittable :: "behavior \<Rightarrow> string \<Rightarrow> bool" where
  "isSplittable self t = (t \<in> set (split self))"

subsection \<open>Private helpers \<open>_create\<close>, \<open>_delete\<close>, \<open>_update\<close>\<close>

text \<open>
  \<open>_create\<close> builds \<open>{id: util.uuid(), type, path, range}\<close> and creates it in the document;
  the fresh id produced by \<open>util.uuid()\<close> is the parameter \<open>uuid\<close>. \<open>_delete\<close> deletes the
  annotation's id, \<open>_update\<close> applies a \<open>Set\<close> of the \<open>range\<close> property. A private
  helper \<open>_name\<close> of the source is written \<open>name'\<close> here. The annotator's own
  operation listener only emits \<open>annotation:changed\<close> events for these three operations
  and leaves the graph alone, so it does not appear here.
\<close>

definition create' :: "string \<Rightarrow> string list \<Rightarrow> string \<Rightarrow> int \<times> int \<Rightarrow> graph \<Rightarrow> error + graph" where
  "create' uuid p t r g =
     graph_create (Annotation \<lparr>anno_id = uuid, anno_type = t, anno_path = p, anno_range = r\<rparr>) g"

definition delete' :: "annotation \<Rightarrow> graph \<Rightarrow> error + graph" where
  "delete' a g = graph_delete (anno_id a) g"

definition update' :: "annotation \<Rightarrow> int \<times> int \<Rightarrow> graph \<Rightarrow> error + graph" where
  "update' a newRange g = graph_set_range (anno_id a) newRange g"

subsection \<open>\<open>_truncate\<close>\<close>

definition truncate' :: "behavior \<Rightarrow> string \<Rightarrow> annotation \<Rightarrow> int \<times> int \<Rightarrow> graph \<Rightarrow> error + graph" where
  "truncate' self uuid a r g =
     (let s1 = fst (anno_range a); s2 = fst r;
          e1 = snd (anno_range a); e2 = snd r
      in if s1 \<ge> s2 \<and> e1 \<le> e2 then delete' a g
         else if s1 \<ge> s2 \<and> e1 > e2 then update' a (e2, e1) g
         else if s1 < s2 \<and> e1 \<le> e2 then update' a (s1, s2) g
         else if isSplittable self (anno_type a) then
           (case update' a (s1, s2) g of
              Inl e \<Rightarrow> Inl e
            | Inr g' \<Rightarrow> create' uuid (anno_path a) (anno_type a) (e2, e1) g')
         else delete' a g)"

subsection \<open>\<open>_filterByNodeAndRange\<close> and the newer \<open>getAnnotations\<close>\<close>

text \<open>
  JavaScript truthiness of an optional number: \<open>undefined\<close> and \<open>0\<close> are falsy.
\<close>

fun truthy :: "int option \<Rightarrow> bool" where
  "truthy None = False"
| "truthy (Some n) = (n \<noteq> 0)"

text \<open>
  The body of the \<open>_.each\<close> callback: \<open>overlap = (aEnd >= sStart)\<close>, then
  \<open>if (sEnd) overlap &= aStart <= sEnd\<close>.
\<close>

definition overlap :: "annotation \<Rightarrow> int \<Rightarrow> int option \<Rightarrow> bool" where
  "overlap a sStart sEnd =
     (let aStart = fst (anno_range a); aEnd = snd (anno_range a);
          ov = (aEnd \<ge> sStart)
      in if truthy sEnd then ov \<and> aStart \<le> the sEnd else ov)"

text \<open>
  \<open>_filterByNodeAndRange(view, nodeId, range)\<close>: \<open>annotations\<close> is the result of
  \<open>this._index.get(nodeId)\<close> (the index is part of substance-data and passed in as
  the parameter \<open>index\<close>); without a range all of them are returned.
\<close>

definition filterByNodeAndRange' ::
  "(string \<Rightarrow> annotation list) \<Rightarrow> string \<Rightarrow> (int \<times> int option) option \<Rightarrow> annotation list" where
  "filterByNodeAndRange' index nodeId range_opt =
     (let annotations = index nodeId
      in case range_opt of
           None \<Rightarrow> annotations
         | Some (sStart, sEnd) \<Rightarrow> filter (\<lambda>a. overlap a sStart sEnd) annotations)"

text \<open>
  \<open>getAnnotations(path, start, end)\<close> of the newer document class (unnamed part 1):
  the range filter only runs under \<open>if (start)\<close>.
\<close>

definition getAnnotations ::
  "(string list \<Rightarrow> annotation list) \<Rightarrow> string list \<Rightarrow> int option \<Rightarrow> int option \<Rightarrow> annotation list" where
  "getAnnotations annotationIndex p start end_opt =
     (let annotations = annotationIndex p
      in if truthy start then filter (\<lambda>a. overlap a (the start) end_opt) annotations
         else annotations)"

subsection \<open>Operations\<close>

text \<open>
  The operation vocabulary (package substance-operator, only its data is needed here):
  array diffs insert or delete a value at a position, text diffs are runs as in the
  README (\<open>ret\<close>, \<open>ins\<close>, \<open>del\<close>), object operations create or delete a node, set a
  property or update it with a diff, and a compound groups operations (with optional
  \<open>data\<close>).
\<close>

datatype array_op =
  ArrayInsert nat string
  | ArrayDelete nat string
  | ArrayCompound "array_op list"

datatype text_run = Retain nat | InsertRun string | DeleteRun string

datatype diff = ArrayDiff array_op | TextDiff "text_run list"

datatype op =
  Create node
  | Delete node
  | Set "string list" pvalue pvalue
  | Update "string list" diff
  | Compound "op list" "string option"

fun op_type :: "op \<Rightarrow> string" where
  "op_type (Create n) = ''create''"
| "op_type (Delete n) = ''delete''"
| "op_type (Set p old new) = ''set''"
| "op_type (Update p d) = ''update''"
| "op_type (Compound os d) = ''compound''"

fun op_path :: "op \<Rightarrow> string list" where
  "op_path (Create n) = [node_id n]"
| "op_path (Delete n) = [node_id n]"
| "op_path (Set p old new) = p"
| "op_path (Update p d) = p"
| "op_path (Compound os d) = []"

subsection \<open>\<open>_transform\<close> and \<open>transform\<close>\<close>

text \<open>
  \<open>Operator.TextOperation.Range.transform(newRange, op.diff, expandLeft, expandRight)\<close>
  belongs to substance-operator; it rewrites the cloned range in place and returns
  whether it changed. It is the parameter \<open>rt\<close>, returning the new range and the flag.
\<close>

type_synonym range_transform = "int \<times> int \<Rightarrow> diff \<Rightarrow> bool \<Rightarrow> bool \<Rightarrow> (int \<times> int) \<times> bool"

definition expand_flags :: "behavior \<Rightarrow> annotation \<Rightarrow> bool \<times> bool" where
  "expand_flags self a =
     (case expansion self (anno_type a) of
        None \<Rightarrow> (False, False)
      | Some (l, r) \<Rightarrow>
          ((case l of None \<Rightarrow> False | Some f \<Rightarrow> f a),
           (case r of None \<Rightarrow> False | Some f \<Rightarrow> f a)))"

definition transform' :: "range_transform \<Rightarrow> behavior \<Rightarrow> op \<Rightarrow> annotation \<Rightarrow> graph \<Rightarrow> error + graph" where
  "transform' rt self op a g =
     (if anno_path a \<noteq> op_path op then Inr g
      else case op of
        Update p d \<Rightarrow>
          (let (expandLeft, expandRight) = expand_flags self a;
               (newRange, changed) = rt (anno_range a) d expandLeft expandRight
           in if changed then
                (if fst newRange = snd newRange then delete' a g
                 else graph_set_range (anno_id a) newRange g)
              else Inr g)
      | Delete n \<Rightarrow> delete' a g
      | Set p old new \<Rightarrow> delete' a g
      | _ \<Rightarrow> Inr g)"

text \<open>\<open>transform(op)\<close>: \<open>_transform\<close> for every annotation the index returns for \<open>op.path\<close>;
  an exception ends the loop.\<close>

fun transform_each :: "range_transform \<Rightarrow> behavior \<Rightarrow> op \<Rightarrow> annotation list \<Rightarrow> graph \<Rightarrow> error + graph" where
  "transform_each rt self op [] g = Inr g"
| "transform_each rt self op (a # as) g =
     (case transform' rt self op a g of
        Inl e \<Rightarrow> Inl e
      | Inr g' \<Rightarrow> transform_each rt self op as g')"

definition transform :: "range_transform \<Rightarrow> behavior \<Rightarrow> (string list \<Rightarrow> annotation list) \<Rightarrow> op \<Rightarrow> graph \<Rightarrow> error + graph" where
  "transform rt self index op g = transform_each rt self op (index (op_path op)) g"

subsection \<open>\<open>paste\<close>\<close>

text \<open>
  \<open>paste\<close> writes into the objects it is given, so the caller's annotation objects live
  in a heap: an annotation object holds its scalar fields and the addresses of its
  \<open>path\<close> array and of its \<open>range\<close> array; \<open>next_ref\<close> is the first unused address.
\<close>

record annotation_object =
  obj_id :: string
  obj_type :: string
  path_ref :: nat
  range_ref :: nat

record heap =
  objects :: "nat \<rightharpoonup> annotation_object"
  paths :: "nat \<rightharpoonup> string list"
  ranges :: "nat \<rightharpoonup> int \<times> int"
  next_ref :: nat

text \<open>\<open>path[0] = newNodeId\<close> on an array; writing index 0 of an empty array extends it.\<close>

fun set_first :: "string \<Rightarrow> string list \<Rightarrow> string list" where
  "set_first n [] = [n]"
| "set_first n (x # xs) = n # xs"

text \<open>The node value \<open>document.create\<close> receives: the object's fields as they are now.\<close>

definition read_annotation :: "heap \<Rightarrow> nat \<Rightarrow> annotation option" where
  "read_annotation h a =
     (case objects h a of
        None \<Rightarrow> None
      | Some ob \<Rightarrow>
          (case (paths h (path_ref ob), ranges h (range_ref ob)) of
             (Some p, Some r) \<Rightarrow>
               Some \<lparr>anno_id = obj_id ob, anno_type = obj_type ob, anno_path = p, anno_range = r\<rparr>
           | _ \<Rightarrow> None))"

text \<open>One round of the loop body up to the call of \<open>this.create\<close>: the two guarded
  assignments. An address that holds no object, path or range stands for \<open>undefined\<close>:
  using it is a \<open>TypeError\<close>, and the round is then reported with the heap it
  started from.\<close>

definition paste_assign :: "string option \<Rightarrow> int option \<Rightarrow> nat \<Rightarrow> heap \<Rightarrow> error + heap" where
  "paste_assign newNodeId offset a h =
     (case objects h a of
        None \<Rightarrow> Inl TypeError
      | Some ob \<Rightarrow>
          (case (case newNodeId of
                   None \<Rightarrow> Inr h
                 | Some n \<Rightarrow>
                     (case paths h (path_ref ob) of
                        None \<Rightarrow> Inl TypeError
                      | Some p \<Rightarrow>
                          Inr (h\<lparr>objects := (objects h)(a \<mapsto> ob\<lparr>path_ref := next_ref h\<rparr>),
                                 paths := (paths h)(next_ref h \<mapsto> set_first n p),
                                 next_ref := Suc (next_ref h)\<rparr>))) of
             Inl e \<Rightarrow> Inl e
           | Inr h1 \<Rightarrow>
               (case offset of
                  None \<Rightarrow> Inr h1
                | Some k \<Rightarrow>
                    (case ranges h1 (range_ref ob) of
                       None \<Rightarrow> Inl TypeError
                     | Some (s, e) \<Rightarrow>
                         Inr (h1\<lparr>ranges := (ranges h1)(range_ref ob \<mapsto> (s + k, e + k))\<rparr>)))))"

text \<open>\<open>this.create(annotation)\<close> : \<open>document.create\<close> with the object as it is now.\<close>

definition create :: "heap \<Rightarrow> nat \<Rightarrow> graph \<Rightarrow> error + graph" where
  "create h a g =
     (case read_annotation h a of
        None \<Rightarrow> Inl TypeError
      | Some v \<Rightarrow> graph_create (Annotation v) g)"

text \<open>
  \<open>paste(annotations, newNodeId, offset)\<close>: the loop over the given objects. The result
  is the heap and the graph as the call leaves them and the exception that ended it, if
  any; what earlier rounds wrote, and what the round wrote whose \<open>create\<close> failed, stays
  written.
\<close>

fun paste :: "nat list \<Rightarrow> string option \<Rightarrow> int option \<Rightarrow> heap \<times> graph \<Rightarrow> heap \<times> graph \<times> error option" where
  "paste [] newNodeId offset (h, g) = (h, g, None)"
| "paste (a # as) newNodeId offset (h, g) =
     (case paste_assign newNodeId offset a h of
        Inl e \<Rightarrow> (h, g, Some e)
      | Inr h' \<Rightarrow>
          (case create h' a g of
             Inl e \<Rightarrow> (h', g, Some e)
           | Inr g' \<Rightarrow> paste as newNodeId offset (h', g')))"

section \<open>Document (src/src/document.js)\<close>

text \<open>
  A document holds its graph (\<open>nodes\<close>), the operation log of a copy-on-write graph
  (\<open>ops\<close>, empty for a plain graph, whose \<open>ops\<close> is undefined), the file store, the
  \<open>transacting\<close> flag, and \<open>applied\<close>: the operations its \<open>operation:applied\<close>
  listeners have been handed so far, oldest first. The constructor shown in the source
  sets no \<open>id\<close>.
\<close>

record schema =
  schema_name :: string
  schema_version :: string
  schema_parent :: "string \<rightharpoonup> string"

record document =
  doc_id :: "string option"
  doc_schema :: "schema option"
  nodes :: graph
  ops :: "op list"
  fileData :: "string \<rightharpoonup> string"
  transacting :: bool
  applied :: "op list"

subsection \<open>Applying operations\<close>

text \<open>
  Modelled from the spec: array diffs of substance-operator. A delete names the position
  and the value found there; applying it to a sequence that holds another value at
  that position (or none) is refused. A compound applies its parts in order.
\<close>

fun apply_array_op :: "array_op \<Rightarrow> string list \<Rightarrow> error + string list"
  and apply_array_ops :: "array_op list \<Rightarrow> string list \<Rightarrow> error + string list" where
  "apply_array_op (ArrayInsert pos v) xs =
     (if pos \<le> length xs then Inr (take pos xs @ [v] @ drop pos xs) else Inl OperationError)"
| "apply_array_op (ArrayDelete pos v) xs =
     (if pos < length xs \<and> xs ! pos = v then Inr (take pos xs @ drop (Suc pos) xs)
      else Inl OperationError)"
| "apply_array_op (ArrayCompound os) xs = apply_array_ops os xs"
| "apply_array_ops [] xs = Inr xs"
| "apply_array_ops (o1 # os) xs =
     (case apply_array_op o1 xs of
        Inl e \<Rightarrow> Inl e
      | Inr ys \<Rightarrow> apply_array_ops os ys)"

text \<open>
  Modelled from the spec: the mutation \<open>apply(op)\<close> performs on the graph (package
  substance-data), for the operations this development runs: create, delete, set of an
  annotation's range, update of a container's \<open>nodes\<close> with an array diff, compound.
  Other property writes are not exercised and are refused. A rejected operation leaves
  the graph as it was.
\<close>

fun graph_exec :: "op \<Rightarrow> graph \<Rightarrow> error + graph"
  and graph_exec_all :: "op list \<Rightarrow> graph \<Rightarrow> error + graph" where
  "graph_exec (Create n) g = graph_create n g"
| "graph_exec (Delete n) g = graph_delete (node_id n) g"
| "graph_exec (Set p old new) g =
     (case (p, new) of
        ([i, prop], RangeValue r) \<Rightarrow>
          (if prop = ''range'' then graph_set_range i r g else Inl OperationError)
      | _ \<Rightarrow> Inl OperationError)"
| "graph_exec (Update p d) g =
     (case (p, d) of
        ([i, prop], ArrayDiff ao) \<Rightarrow>
          (case g i of
             Some (Container ci ct ns) \<Rightarrow>
               (if prop = ''nodes'' then
                  (case apply_array_op ao ns of
                     Inl e \<Rightarrow> Inl e
                   | Inr ns' \<Rightarrow> Inr (g(i \<mapsto> Container ci ct ns')))
                else Inl OperationError)
           | _ \<Rightarrow> Inl OperationError)
      | _ \<Rightarrow> Inl OperationError)"
| "graph_exec (Compound os d) g = graph_exec_all os g"
| "graph_exec_all [] g = Inr g"
| "graph_exec_all (o1 # os) g =
     (case graph_exec o1 g of
        Inl e \<Rightarrow> Inl e
      | Inr g' \<Rightarrow> graph_exec_all os g')"

text \<open>
  Modelled from the spec: \<open>apply(op)\<close> performs the mutation and then hands the operation
  to the operation listeners, once. The mutation itself is the parameter \<open>exec\<close>.
  (The method is called \<open>apply\<close> in the source.)
\<close>

definition doc_apply :: "(op \<Rightarrow> graph \<Rightarrow> error + graph) \<Rightarrow> op \<Rightarrow> document \<Rightarrow> error + document" where
  "doc_apply exec op d =
     (case exec op (nodes d) of
        Inl e \<Rightarrow> Inl e
      | Inr g \<Rightarrow> Inr (d\<lparr>nodes := g, applied := applied d @ [op]\<rparr>))"

subsection \<open>\<open>hide\<close>\<close>

text \<open>\<open>Array.prototype.indexOf\<close>: the first position of the value, or \<open>-1\<close>.\<close>

fun indexOf :: "string list \<Rightarrow> string \<Rightarrow> int" where
  "indexOf [] n = - 1"
| "indexOf (x # xs) n =
     (if x = n then 0 else (let i = indexOf xs n in if i < 0 then - 1 else i + 1))"

text \<open>
  \<open>Array.prototype.sort()\<close> without a comparison function orders the elements by their
  string forms, compared code unit by code unit. For a non-negative integer the string
  is its decimal form, and the digit characters are ordered like the digits.
\<close>

fun digits :: "nat \<Rightarrow> nat list" where
  "digits n = (if n < 10 then [n] else digits (n div 10) @ [n mod 10])"

fun string_less :: "nat list \<Rightarrow> nat list \<Rightarrow> bool" where
  "string_less xs [] = False"
| "string_less [] (y # ys) = True"
| "string_less (x # xs) (y # ys) = (x < y \<or> (x = y \<and> string_less xs ys))"

fun sort_insert :: "nat \<Rightarrow> nat list \<Rightarrow> nat list" where
  "sort_insert x [] = [x]"
| "sort_insert x (y # ys) =
     (if string_less (digits y) (digits x) then y # sort_insert x ys else x # y # ys)"

fun sort_default :: "nat list \<Rightarrow> nat list" where
  "sort_default [] = []"
| "sort_default (x # xs) = sort_insert x (sort_default xs)"

text \<open>\<open>_.uniq(array)\<close>: keeps the first occurrence of every value.\<close>

fun uniq_loop :: "nat list \<Rightarrow> nat list \<Rightarrow> nat list" where
  "uniq_loop [] result = result"
| "uniq_loop (x # xs) result =
     uniq_loop xs (if x \<in> set result then result else result @ [x])"

definition uniq :: "nat list \<Rightarrow> nat list" where
  "uniq xs = uniq_loop xs []"

text \<open>The \<open>_.each\<close> loop that collects the positions of the given ids.\<close>

fun collect_indexes :: "string list \<Rightarrow> string list \<Rightarrow> nat list" where
  "collect_indexes view_nodes [] = []"
| "collect_indexes view_nodes (n # ns) =
     (let i = indexOf view_nodes n
      in (if i \<ge> 0 then [nat i] else []) @ collect_indexes view_nodes ns)"

text \<open>The operation \<open>hide\<close> builds: one delete per position, in the order of
  \<open>_.uniq(indexes.sort().reverse())\<close>.\<close>

definition hide_ops :: "string list \<Rightarrow> nat list \<Rightarrow> array_op list" where
  "hide_ops view_nodes indexes =
     map (\<lambda>index. ArrayDelete index (view_nodes ! index)) (uniq (rev (sort_default indexes)))"

text \<open>
  \<open>hide(viewId, nodes)\<close>; a single id given as a string is the one-element list. The
  container wrapper that \<open>get\<close> returns exposes the \<open>nodes\<close> sequence of the view node; a
  node without one makes \<open>view.nodes.indexOf\<close> a \<open>TypeError\<close>.
\<close>

definition hide :: "string \<Rightarrow> string list \<Rightarrow> document \<Rightarrow> error + document" where
  "hide viewId ns d =
     (case nodes d viewId of
        None \<Rightarrow> Inl (DocumentError (''Invalid view id: '' @ viewId))
      | Some (Container ci ct view_nodes) \<Rightarrow>
          (let indexes = collect_indexes view_nodes ns
           in if length indexes = 0 then Inr d
              else doc_apply graph_exec
                     (Update [viewId, ''nodes''] (ArrayDiff (ArrayCompound (hide_ops view_nodes indexes)))) d)
      | Some other \<Rightarrow> Inl TypeError)"

subsection \<open>Snapshots: \<open>toJSON\<close> and \<open>fromSnapshot\<close>\<close>

record snapshot =
  snap_id :: "string option"
  snap_schema :: "(string \<times> string) option"
  snap_nodes :: graph

record options =
  opt_schema :: "schema option"
  seed :: "snapshot option"

text \<open>
  Modelled from the spec: the graph's own \<open>toJSON\<close> (package substance-data) produces
  \<open>{schema: [name, version], nodes: <id to node mapping>}\<close>.
\<close>

definition graph_toJSON :: "document \<Rightarrow> snapshot" where
  "graph_toJSON d =
     \<lparr> snap_id = None,
       snap_schema = map_option (\<lambda>s. (schema_name s, schema_version s)) (doc_schema d),
       snap_nodes = nodes d \<rparr>"

text \<open>\<open>toJSON\<close>: \<open>res = this.graph.toJSON(); res.id = this.id\<close>.\<close>

definition toJSON :: "document \<Rightarrow> snapshot" where
  "toJSON d = (graph_toJSON d)\<lparr>snap_id := doc_id d\<rparr>"

text \<open>
  Modelled from the spec: the graph constructor \<open>new Graph(schema, options)\<close> (package
  substance-data) takes the nodes of the seed when one is given and starts empty
  otherwise.
\<close>

definition new_graph :: "schema option \<Rightarrow> options \<Rightarrow> graph" where
  "new_graph sch opts = (case seed opts of None \<Rightarrow> Map.empty | Some sn \<Rightarrow> snap_nodes sn)"

text \<open>
  The constructor \<open>Document(options)\<close>: a new graph for \<open>options.schema\<close> and
  \<open>options\<close>, and an empty file store. The two indexes the constructor adds are derived
  from the nodes and are not part of the state here.
\<close>

definition new_document :: "options \<Rightarrow> document" where
  "new_document opts =
     \<lparr> doc_id = None,
       doc_schema = opt_schema opts,
       nodes = new_graph (opt_schema opts) opts,
       ops = [],
       fileData = Map.empty,
       transacting = False,
       applied = [] \<rparr>"

text \<open>\<open>Document.fromSnapshot(data, options)\<close>: \<open>options = options || {}\<close>,
  \<open>options.seed = data\<close>, \<open>new Document(options)\<close>.\<close>

definition fromSnapshot :: "snapshot \<Rightarrow> options option \<Rightarrow> document" where
  "fromSnapshot snap opts =
     (let opts1 = (case opts of None \<Rightarrow> \<lparr>opt_schema = None, seed = None\<rparr> | Some x \<Rightarrow> x)
      in new_document (opts1\<lparr>seed := Some snap\<rparr>))"

subsection \<open>Transactions: \<open>startTransaction\<close> and \<open>save\<close>\<close>

text \<open>
  Modelled from the spec: the copy-on-write graph \<open>new COWGraph(graph)\<close> (package
  substance-data) reads what the original graph holds and starts with an empty
  operation log.
\<close>

definition new_cow_graph :: "graph \<Rightarrow> graph \<times> op list" where
  "new_cow_graph g = (g, [])"

text \<open>
  \<open>startTransaction\<close> returns the shadow document: it inherits from \<open>this\<close>, has no
  listeners of its own, and its graph is a copy-on-write graph over the graph of
  \<open>this\<close>. The file store is not copied: the shadow inherits the very object of
  \<open>this\<close>. The function has no failing branch; its result is written as a sum to
  compare it with the newer class below.
\<close>

definition startTransaction :: "document \<Rightarrow> error + document" where
  "startTransaction this =
     Inr (this\<lparr>nodes := fst (new_cow_graph (nodes this)),
               ops := snd (new_cow_graph (nodes this)),
               transacting := True, applied := []\<rparr>)"

text \<open>
  \<open>save\<close> writes to the document its \<open>original\<close> field points at, so the model keeps the
  two documents side by side.
\<close>

record world =
  original :: document
  shadow :: document

text \<open>
  Modelled from the spec: an \<open>apply\<close> on the shadow lands in the shadow only and is
  appended to its operation log.
\<close>

definition shadow_apply :: "(op \<Rightarrow> graph \<Rightarrow> error + graph) \<Rightarrow> op \<Rightarrow> world \<Rightarrow> error + world" where
  "shadow_apply exec op w =
     (case doc_apply exec op (shadow w) of
        Inl e \<Rightarrow> Inl e
      | Inr s \<Rightarrow> Inr (w\<lparr>shadow := s\<lparr>ops := ops s @ [op]\<rparr>\<rparr>))"

text \<open>
  Modelled from the spec: \<open>Operator.Helpers.flatten\<close> (package substance-operator)
  flattens compound operations into a single flat operation list.
\<close>

fun flatten_op :: "op \<Rightarrow> op list"
  and flatten :: "op list \<Rightarrow> op list" where
  "flatten_op (Compound os d) = flatten os"
| "flatten_op (Create n) = [Create n]"
| "flatten_op (Delete n) = [Delete n]"
| "flatten_op (Set p old new) = [Set p old new]"
| "flatten_op (Update p df) = [Update p df]"
| "flatten [] = []"
| "flatten (o1 # os) = flatten_op o1 @ flatten os"

text \<open>
  \<open>save\<close> of src/src/document.js, called on the shadow. The result is the world as the call
  leaves it and the exception that ended it, if any. An undefined \<open>ops\<close> and an empty
  one are both the empty list.
\<close>

definition save :: "(op \<Rightarrow> graph \<Rightarrow> error + graph) \<Rightarrow> world \<Rightarrow> world \<times> error option" where
  "save exec w =
     (let this = shadow w
      in if \<not> transacting this then (w, None)
         else
           (let original1 = (original w)\<lparr>fileData := fileData (original w) ++ fileData this\<rparr>;
                w1 = w\<lparr>original := original1\<rparr>;
                ops1 = ops this
            in if length ops1 = 0 then (w1, None)
               else
                 (let ops2 = flatten ops1;
                      compound = Compound ops2 None
                  in case doc_apply exec compound original1 of
                       Inl e \<Rightarrow> (w1, Some e)
                     | Inr original2 \<Rightarrow> (w1\<lparr>original := original2\<rparr>, None))))"

section \<open>Simulations of the earlier document class (unnamed part 1)\<close>

text \<open>
  \<open>startSimulation\<close>: \<open>simulation = this.fromSnapshot(this.toJSON())\<close> with an empty \<open>ops\<close>
  list; the result pairs the document (\<open>self\<close>) with its simulation.
\<close>

definition startSimulation :: "document \<Rightarrow> world" where
  "startSimulation self =
     \<lparr> original = self, shadow = (fromSnapshot (toJSON self) None)\<lparr>ops := []\<rparr> \<rparr>"

text \<open>\<open>simulation.apply\<close>: \<open>ops.push(op)\<close>, then the document's own \<open>apply\<close>.\<close>

definition simulation_apply ::
  "(op \<Rightarrow> graph \<Rightarrow> error + graph) \<Rightarrow> op \<Rightarrow> world \<Rightarrow> world \<times> error option" where
  "simulation_apply exec op w =
     (let sim = (shadow w)\<lparr>ops := ops (shadow w) @ [op]\<rparr>
      in case doc_apply exec op sim of
           Inl e \<Rightarrow> (w\<lparr>shadow := sim\<rparr>, Some e)
         | Inr sim' \<Rightarrow> (w\<lparr>shadow := sim'\<rparr>, None))"

text \<open>The loop of \<open>simulation.save\<close> that fills \<open>_ops\<close>.\<close>

fun save_loop :: "op list \<Rightarrow> op list \<Rightarrow> op list" where
  "save_loop [] acc = acc"
| "save_loop (o1 # os) acc =
     save_loop os (case o1 of Compound cs d \<Rightarrow> acc @ cs | _ \<Rightarrow> acc @ [o1])"

text \<open>
  The test \<open>if (data)\<close> on the optional argument of \<open>simulation.save\<close>: \<open>undefined\<close> and
  the empty string are falsy.
\<close>

fun data_given :: "string option \<Rightarrow> bool" where
  "data_given None = False"
| "data_given (Some s) = (s \<noteq> [])"

text \<open>\<open>simulation.save(data)\<close>; the compound carries a copy of \<open>data\<close> only under
  \<open>if (data)\<close>.\<close>

definition simulation_save ::
  "(op \<Rightarrow> graph \<Rightarrow> error + graph) \<Rightarrow> string option \<Rightarrow> world \<Rightarrow> world \<times> error option" where
  "simulation_save exec data w =
     (let simulation = shadow w;
          self1 = (original w)\<lparr>fileData := fileData (original w) ++ fileData simulation\<rparr>;
          w1 = w\<lparr>original := self1\<rparr>;
          ops1 = save_loop (ops simulation) []
      in if length ops1 = 0 then (w1, None)
         else
           (let compound = Compound ops1 None;
                compound1 = (if data_given data then Compound ops1 data else compound)
            in case doc_apply exec compound1 self1 of
                 Inl e \<Rightarrow> (w1, Some e)
               | Inr self2 \<Rightarrow> (w1\<lparr>original := self2\<rparr>, None)))"

section \<open>The newer document class (unnamed part 1)\<close>

text \<open>
  An operation listener is known by what its two methods do when called: whether
  \<open>onOperationApplied(op)\<close> throws and whether \<open>reset()\<close> throws. The document records
  what happens to its listeners in \<open>events\<close>. The change map of a transaction is
  \<open>null\<close> until the first transaction starts.
\<close>

record listener =
  listener_name :: string
  priority :: int
  applied_throws :: "op \<Rightarrow> bool"
  reset_throws :: bool

datatype event = Invoked string op | ConsoleError string | Reset string

record vdocument =
  data :: graph
  operationListeners :: "listener list"
  isTransacting :: bool
  transactionChanges :: "op list option"
  events :: "event list"

text \<open>
  Modelled from the spec: the change map (\<open>./change-map\<close>, not part of the sources, and
  not described by the spec) is taken to be the list of the operations it was updated
  with, oldest first.
\<close>

definition change_map_update :: "op \<Rightarrow> op list \<Rightarrow> op list" where
  "change_map_update op changes = changes @ [op]"

text \<open>\<open>addOperationListener(listener, priority)\<close>: \<open>priority || 10\<close>, push, sort by priority.\<close>

definition addOperationListener :: "listener \<Rightarrow> int option \<Rightarrow> vdocument \<Rightarrow> vdocument" where
  "addOperationListener l prio d =
     d\<lparr>operationListeners :=
         sort_key priority
           (operationListeners d @ [l\<lparr>priority := (if truthy prio then the prio else 10)\<rparr>])\<rparr>"

text \<open>
  \<open>startTransaction\<close> of the newer class; the error thrown is a plain \<open>Error\<close> with the
  message "Nested transactions are not supported yet.", named as the spec names it. The
  recovery point the history takes (\<open>./document-history\<close>, not part of the sources) is
  left out.
\<close>

definition v_startTransaction :: "vdocument \<Rightarrow> error + vdocument" where
  "v_startTransaction d =
     (if isTransacting d then Inl NestedTransactionError
      else Inr (d\<lparr>isTransacting := True, transactionChanges := Some []\<rparr>))"

text \<open>The first loop of \<open>onOperationApplied\<close>: every listener is called inside
  \<open>try\<close>; one that throws is logged and pushed to \<open>failed\<close>.\<close>

fun notify_loop :: "op \<Rightarrow> listener list \<Rightarrow> event list \<times> listener list \<Rightarrow> event list \<times> listener list" where
  "notify_loop op [] (evs, failed) = (evs, failed)"
| "notify_loop op (l # ls) (evs, failed) =
     notify_loop op ls
       (if applied_throws l op
        then (evs @ [Invoked (listener_name l) op, ConsoleError (listener_name l)], failed @ [l])
        else (evs @ [Invoked (listener_name l) op], failed))"

text \<open>The second loop: \<open>reset()\<close> of every failed listener, outside any \<open>try\<close>.\<close>

fun reset_loop :: "listener list \<Rightarrow> event list \<Rightarrow> event list \<times> error option" where
  "reset_loop [] evs = (evs, None)"
| "reset_loop (l # ls) evs =
     (if reset_throws l
      then (evs @ [Reset (listener_name l)], Some (ListenerError (listener_name l)))
      else reset_loop ls (evs @ [Reset (listener_name l)]))"

definition onOperationApplied :: "op \<Rightarrow> vdocument \<Rightarrow> vdocument \<times> error option" where
  "onOperationApplied op d =
     (case transactionChanges d of
        None \<Rightarrow> (d, Some TypeError)
      | Some changes \<Rightarrow>
          (let d1 = d\<lparr>transactionChanges := Some (change_map_update op changes)\<rparr>;
               (evs, failed) = notify_loop op (operationListeners d1) (events d1, []);
               (evs', err) = reset_loop failed evs
           in (d1\<lparr>events := evs'\<rparr>, err)))"

text \<open>
  Modelled from the spec: the data layer (package substance-data) performs the mutation
  and then emits \<open>operation:applied\<close>, which the constructor wired to
  \<open>onOperationApplied\<close>.
\<close>

definition data_apply :: "(op \<Rightarrow> graph \<Rightarrow> error + graph) \<Rightarrow> op \<Rightarrow> vdocument \<Rightarrow> vdocument \<times> error option" where
  "data_apply exec op d =
     (case exec op (data d) of
        Inl e \<Rightarrow> (d, Some e)
      | Inr g \<Rightarrow> onOperationApplied op (d\<lparr>data := g\<rparr>))"

section \<open>Derived notions and sample values\<close>

text \<open>
  The spec's words for exclusivity: two types are exclusive iff they map to the same
  configured group, a type absent from the mapping being in no group.
\<close>

definition same_configured_group :: "behavior \<Rightarrow> string \<Rightarrow> string \<Rightarrow> bool" where
  "same_configured_group self type1 type2 =
     (case groups self type1 of None \<Rightarrow> False | Some grp \<Rightarrow> groups self type2 = Some grp)"

text \<open>An operation that is not a compound, and the parts a log entry contributes when
  compounds are opened one level.\<close>

fun atomic :: "op \<Rightarrow> bool" where
  "atomic (Compound os d) = False"
| "atomic (Create n) = True"
| "atomic (Delete n) = True"
| "atomic (Set p old new) = True"
| "atomic (Update p df) = True"

fun components :: "op \<Rightarrow> op list" where
  "components (Compound os d) = os"
| "components (Create n) = [Create n]"
| "components (Delete n) = [Delete n]"
| "components (Set p old new) = [Set p old new]"
| "components (Update p df) = [Update p df]"

text \<open>What one listener adds to the event record when it is notified.\<close>

definition notice :: "op \<Rightarrow> listener \<Rightarrow> event list" where
  "notice op l =
     Invoked (listener_name l) op # (if applied_throws l op then [ConsoleError (listener_name l)] else [])"

text \<open>A range moved by an optional offset.\<close>

definition shifted :: "int option \<Rightarrow> (int \<times> int) option \<Rightarrow> (int \<times> int) option" where
  "shifted offset r =
     (case offset of None \<Rightarrow> r | Some k \<Rightarrow> map_option (\<lambda>(s, e). (s + k, e + k)) r)"

text \<open>
  What \<open>paste\<close> has done to the object at address \<open>a\<close>, between the heap \<open>h\<close> before the
  call and the heap \<open>h'\<close> and graph \<open>g'\<close> after it: the object is the same object with
  the same range array, and that array holds the shifted range; with a new node id the
  object points at a path array allocated by the call that holds the old path with
  the new first element, otherwise at its old one; the old path array is as it was;
  and the graph holds, under the object's id, the object as it now reads.
\<close>

definition pasted :: "string option \<Rightarrow> int option \<Rightarrow> heap \<Rightarrow> heap \<Rightarrow> graph \<Rightarrow> nat \<Rightarrow> bool" where
  "pasted newNodeId offset h h' g' a =
     (case (objects h a, objects h' a) of
        (Some ob, Some ob') \<Rightarrow>
          obj_id ob' = obj_id ob \<and> obj_type ob' = obj_type ob \<and> range_ref ob' = range_ref ob
          \<and> ranges h' (range_ref ob) = shifted offset (ranges h (range_ref ob))
          \<and> (case newNodeId of
                None \<Rightarrow> path_ref ob' = path_ref ob
              | Some n \<Rightarrow>
                  next_ref h \<le> path_ref ob'
                  \<and> paths h' (path_ref ob') = map_option (set_first n) (paths h (path_ref ob)))
          \<and> paths h' (path_ref ob) = paths h (path_ref ob)
          \<and> g' (obj_id ob) = map_option Annotation (read_annotation h' a)
      | _ \<Rightarrow> False)"

text \<open>What a run of \<open>paste\<close> over the objects \<open>as\<close> leaves alone.\<close>

definition frame :: "nat list \<Rightarrow> heap \<Rightarrow> graph \<Rightarrow> heap \<Rightarrow> graph \<Rightarrow> bool" where
  "frame as h g h' g' \<longleftrightarrow>
     next_ref h \<le> next_ref h'
     \<and> (\<forall>r. r < next_ref h \<longrightarrow> paths h' r = paths h r)
     \<and> (\<forall>b. b \<notin> set as \<longrightarrow> objects h' b = objects h b)
     \<and> (\<forall>b ob'. objects h' b = Some ob' \<longrightarrow>
           (\<exists>ob. objects h b = Some ob \<and> range_ref ob' = range_ref ob))
     \<and> (\<forall>r. (\<forall>a\<in>set as. \<forall>ob. objects h a = Some ob \<longrightarrow> range_ref ob \<noteq> r) \<longrightarrow> ranges h' r = ranges h r)
     \<and> (\<forall>i v. g i = Some v \<longrightarrow> g' i = Some v)"

text \<open>
  Three behaviours of the range transformation on an edit: one that does not touch the
  range, one that removes the text under it, one that inserts a character before it.
\<close>

definition range_untouched :: range_transform where
  "range_untouched r d expandLeft expandRight = (r, False)"

definition range_emptied :: range_transform where
  "range_emptied r d expandLeft expandRight = ((fst r, fst r), True)"

definition range_moved_right :: range_transform where
  "range_moved_right r d expandLeft expandRight = ((fst r + 1, snd r + 1), True)"

text \<open>An annotation \<open>a1\<close> of a given type and range on the \<open>content\<close> of \<open>text_1\<close>.\<close>

definition sample_annotation :: "string \<Rightarrow> int \<times> int \<Rightarrow> annotation" where
  "sample_annotation t r =
     \<lparr>anno_id = ''a1'', anno_type = t, anno_path = [''text_1'', ''content''], anno_range = r\<rparr>"

text \<open>A creation of a paragraph, an empty document, and a document whose view
  \<open>content\<close> holds eleven nodes.\<close>

definition sample_op :: op where
  "sample_op = Create (Content ''text_1'' ''paragraph'' [(''content'', StringValue ''abc'')])"

definition empty_document :: document where
  "empty_document =
     \<lparr> doc_id = None, doc_schema = None, nodes = Map.empty, ops = [], fileData = Map.empty,
       transacting = False, applied = [] \<rparr>"

definition sample_view :: document where
  "sample_view =
     empty_document
       \<lparr>nodes := [''content'' \<mapsto> Container ''content'' ''view''
          [''n0'', ''n1'', ''n2'', ''n3'', ''n4'', ''n5'', ''n6'', ''n7'', ''n8'', ''n9'', ''n10'']]\<rparr>"

text \<open>A simulation of the empty document to which one compound holding a compound
  has been applied.\<close>

definition nested_log_world :: world where
  "nested_log_world =
     fst (simulation_apply graph_exec (Compound [Compound [sample_op] None] None)
            (startSimulation empty_document))"

text \<open>Listeners that throw or not, and a document in a transaction that has them.\<close>

definition sample_listener :: "string \<Rightarrow> bool \<Rightarrow> bool \<Rightarrow> listener" where
  "sample_listener n t r =
     \<lparr>listener_name = n, priority = 10, applied_throws = (\<lambda>op. t), reset_throws = r\<rparr>"

definition sample_vdocument :: "listener list \<Rightarrow> vdocument" where
  "sample_vdocument ls =
     \<lparr>data = Map.empty, operationListeners = ls, isTransacting = True,
      transactionChanges = Some [], events = []\<rparr>"

text \<open>
  Two copied annotations \<open>c1\<close> and \<open>c2\<close> that share one path array, and the heap and
  graph after pasting them into \<open>text_2\<close> at offset 10.
\<close>

definition sample_heap :: heap where
  "sample_heap =
     \<lparr> objects = [0 \<mapsto> \<lparr>obj_id = ''c1'', obj_type = ''strong'', path_ref = 0, range_ref = 0\<rparr>,
                  1 \<mapsto> \<lparr>obj_id = ''c2'', obj_type = ''idea'', path_ref = 0, range_ref = 1\<rparr>],
       paths = [0 \<mapsto> [''text_1'', ''content'']],
       ranges = [0 \<mapsto> (0, 4), 1 \<mapsto> (2, 6)],
       next_ref = 1 \<rparr>"

definition pasted_heap :: heap where
  "pasted_heap =
     \<lparr> objects = [0 \<mapsto> \<lparr>obj_id = ''c1'', obj_type = ''strong'', path_ref = 1, range_ref = 0\<rparr>,
                  1 \<mapsto> \<lparr>obj_id = ''c2'', obj_type = ''idea'', path_ref = 2, range_ref = 1\<rparr>],
       paths = [0 \<mapsto> [''text_1'', ''content''], 1 \<mapsto> [''text_2'', ''content''],
                2 \<mapsto> [''text_2'', ''content'']],
       ranges = [0 \<mapsto> (10, 14), 1 \<mapsto> (12, 16)],
       next_ref = 3 \<rparr>"

definition pasted_graph :: graph where
  "pasted_graph =
     [''c1'' \<mapsto> Annotation \<lparr>anno_id = ''c1'', anno_type = ''strong'',
                               anno_path = [''text_2'', ''content''], anno_range = (10, 14)\<rparr>,
      ''c2'' \<mapsto> Annotation \<lparr>anno_id = ''c2'', anno_type = ''idea'',
                               anno_path = [''text_2'', ''content''], anno_range = (12, 16)\<rparr>]"

section \<open>Properties\<close>

subsection \<open>Truncation\<close>

text \<open>
  C1. For an annotation \<open>a\<close> of the graph with range \<open>[s1,e1]\<close>, an action range \<open>[s2,e2]\<close>
  and a fresh id for \<open>util.uuid()\<close>, \<open>_truncate\<close> deletes \<open>a\<close> when \<open>s1 >= s2\<close> and
  \<open>e1 <= e2\<close>; sets its range to \<open>[e2,e1]\<close> when \<open>s1 >= s2\<close> and \<open>e1 > e2\<close>; sets it to
  \<open>[s1,s2]\<close> when \<open>s1 < s2\<close> and \<open>e1 <= e2\<close>; and when \<open>s1 < s2\<close> and \<open>e1 > e2\<close> it sets the
  range to \<open>[s1,s2]\<close> and creates an annotation of the same type and path with range
  \<open>[e2,e1]\<close> if the type is splittable, and deletes \<open>a\<close> otherwise. Nothing else in the
  graph changes.
\<close>

theorem truncate_cases:
  assumes "g (anno_id a) = Some (Annotation a)"
    and "anno_range a = (s1, e1)"
    and "g uuid = None"
  shows
    "(s1 \<ge> s2 \<and> e1 \<le> e2 \<longrightarrow>
        truncate' self uuid a (s2, e2) g = Inr (g(anno_id a := None)))
     \<and> (s1 \<ge> s2 \<and> e1 > e2 \<longrightarrow>
        truncate' self uuid a (s2, e2) g =
          Inr (g(anno_id a \<mapsto> Annotation (a\<lparr>anno_range := (e2, e1)\<rparr>))))
     \<and> (s1 < s2 \<and> e1 \<le> e2 \<longrightarrow>
        truncate' self uuid a (s2, e2) g =
          Inr (g(anno_id a \<mapsto> Annotation (a\<lparr>anno_range := (s1, s2)\<rparr>))))
     \<and> (s1 < s2 \<and> e1 > e2 \<and> isSplittable self (anno_type a) \<longrightarrow>
        truncate' self uuid a (s2, e2) g =
          Inr (g(anno_id a \<mapsto> Annotation (a\<lparr>anno_range := (s1, s2)\<rparr>),
                 uuid \<mapsto> Annotation \<lparr>anno_id = uuid, anno_type = anno_type a,
                                        anno_path = anno_path a, anno_range = (e2, e1)\<rparr>)))
     \<and> (s1 < s2 \<and> e1 > e2 \<and> \<not> isSplittable self (anno_type a) \<longrightarrow>
        truncate' self uuid a (s2, e2) g = Inr (g(anno_id a := None)))"
proof -
  have ne: "uuid \<noteq> anno_id a" using assms by auto
  have del: "delete' a g = Inr (g(anno_id a := None))"
    using assms(1) by (simp add: delete'_def graph_delete_def)
  have upd: "update' a r g = Inr (g(anno_id a \<mapsto> Annotation (a\<lparr>anno_range := r\<rparr>)))" for r
    using assms(1) by (simp add: update'_def graph_set_range_def)
  have cre: "create' uuid (anno_path a) (anno_type a) r
               (g(anno_id a \<mapsto> Annotation (a\<lparr>anno_range := r'\<rparr>))) =
             Inr (g(anno_id a \<mapsto> Annotation (a\<lparr>anno_range := r'\<rparr>),
                    uuid \<mapsto> Annotation \<lparr>anno_id = uuid, anno_type = anno_type a,
                                           anno_path = anno_path a, anno_range = r\<rparr>))" for r r'
    using assms(3) ne by (simp add: create'_def graph_create_def)
  show ?thesis
    using assms(2) by (simp add: truncate'_def del upd cre)
qed

text \<open>
  The scenario of the spec: annotation \<open>[2,8]\<close>, action range \<open>[4,6]\<close>. With the
  splittable type \<open>strong\<close> the graph holds exactly \<open>[2,4]\<close> and \<open>[6,8]\<close> afterwards; with
  the type \<open>idea\<close>, which is not splittable, it is empty.
\<close>

theorem truncate_cases_witness:
  "truncate' defaultBehavior ''a2'' (sample_annotation ''strong'' (2, 8)) (4, 6)
     [''a1'' \<mapsto> Annotation (sample_annotation ''strong'' (2, 8))] =
     Inr [''a1'' \<mapsto> Annotation (sample_annotation ''strong'' (2, 4)),
          ''a2'' \<mapsto> Annotation \<lparr>anno_id = ''a2'', anno_type = ''strong'',
                                   anno_path = [''text_1'', ''content''], anno_range = (6, 8)\<rparr>]
   \<and> truncate' defaultBehavior ''a2'' (sample_annotation ''idea'' (2, 8)) (4, 6)
       [''a1'' \<mapsto> Annotation (sample_annotation ''idea'' (2, 8))] =
     Inr Map.empty"
  using truncate_cases [of "[''a1'' \<mapsto> Annotation (sample_annotation ''strong'' (2, 8))]"
      "sample_annotation ''strong'' (2, 8)" 2 8 "''a2''" 4 6 defaultBehavior]
    truncate_cases [of "[''a1'' \<mapsto> Annotation (sample_annotation ''idea'' (2, 8))]"
      "sample_annotation ''idea'' (2, 8)" 2 8 "''a2''" 4 6 defaultBehavior]
  by (simp add: sample_annotation_def isSplittable_def defaultBehavior_def)

subsection \<open>Range filter\<close>

text \<open>
  Whenever the end of the query range is absent or not \<open>0\<close>, the filter keeps an
  annotation iff \<open>aEnd >= sStart\<close> and (no \<open>sEnd\<close> is given or \<open>aStart <= sEnd\<close>).
\<close>

lemma overlap_inclusive:
  "sEnd \<noteq> Some 0 \<Longrightarrow>
   overlap a sStart sEnd =
     (snd (anno_range a) \<ge> sStart \<and> (sEnd = None \<or> fst (anno_range a) \<le> the sEnd))"
  by (cases sEnd) (auto simp: overlap_def Let_def)

lemma filterByNodeAndRange_inclusive:
  "sEnd \<noteq> Some 0 \<Longrightarrow>
   a \<in> set (filterByNodeAndRange' index nodeId (Some (sStart, sEnd))) \<longleftrightarrow>
     a \<in> set (index nodeId)
     \<and> snd (anno_range a) \<ge> sStart \<and> (sEnd = None \<or> fst (anno_range a) \<le> the sEnd)"
  by (simp add: filterByNodeAndRange'_def overlap_inclusive)

lemma overlap_examples:
  "overlap (sample_annotation ''strong'' (2, 5)) 5 (Some 7)
   \<and> \<not> overlap (sample_annotation ''strong'' (2, 5)) 6 (Some 7)"
  by (simp add: overlap_def sample_annotation_def)

text \<open>
  C3. The filter is meant to keep an annotation iff \<open>aEnd >= sStart\<close> and (no \<open>sEnd\<close> is
  given or \<open>aStart <= sEnd\<close>). With the query range \<open>[0,0]\<close> the end is given, but
  \<open>if (sEnd)\<close> takes \<open>0\<close> for a missing end: the annotation \<open>[3,5]\<close> is kept although
  \<open>3 <= 0\<close> fails. The newer \<open>getAnnotations\<close> tests \<open>if (start)\<close> and so does no
  filtering at all for a query that starts at \<open>0\<close>: for the query \<open>[0,2]\<close> it returns the
  annotation \<open>[3,5]\<close>.
\<close>

theorem filter_keeps_past_end_zero:
  "filterByNodeAndRange' (\<lambda>n. [sample_annotation ''strong'' (3, 5)]) ''text_1'' (Some (0, Some 0))
     = [sample_annotation ''strong'' (3, 5)]
   \<and> getAnnotations (\<lambda>p. [sample_annotation ''strong'' (3, 5)]) [''text_1'', ''content''] (Some 0) (Some 2)
     = [sample_annotation ''strong'' (3, 5)]
   \<and> \<not> fst (anno_range (sample_annotation ''strong'' (3, 5))) \<le> 0
   \<and> \<not> fst (anno_range (sample_annotation ''strong'' (3, 5))) \<le> 2"
  by (simp add: filterByNodeAndRange'_def getAnnotations_def overlap_def sample_annotation_def)

subsection \<open>Collapsed ranges under co-transformation\<close>

text \<open>
  For an annotation whose stored range is not collapsed, and a range transformation
  whose flag says exactly whether the range differs, a transformed range with equal
  start and end means that the annotation is deleted.
\<close>

lemma transform_collapse_proper:
  assumes "g (anno_id a) = Some (Annotation a)"
    and "anno_path a = p"
    and "fst (anno_range a) \<noteq> snd (anno_range a)"
    and "rt (anno_range a) d (fst (expand_flags self a)) (snd (expand_flags self a)) = (newRange, changed)"
    and "changed = (newRange \<noteq> anno_range a)"
    and "fst newRange = snd newRange"
  shows "\<exists>g'. transform' rt self (Update p d) a g = Inr g' \<and> g' (anno_id a) = None"
proof -
  have "changed" using assms(3,5,6) by auto
  moreover have "delete' a g = Inr (g(anno_id a := None))"
    using assms(1) by (simp add: delete'_def graph_delete_def)
  ultimately show ?thesis
    using assms(2,4,6) by (auto simp: transform'_def split: prod.splits)
qed

text \<open>
  The claim as worded fails for an annotation that is already collapsed when the edit
  does not touch it: for an insertion at offset 10 the range transformation leaves the
  range \<open>[3,3]\<close> alone and reports no change, and the annotation stays in the graph.
\<close>

theorem transform_unchanged_counterexample:
  "transform' range_untouched defaultBehavior
     (Update [''text_1'', ''content''] (TextDiff [Retain 10, InsertRun ''x'']))
     (sample_annotation ''strong'' (3, 3))
     [''a1'' \<mapsto> Annotation (sample_annotation ''strong'' (3, 3))]
     = Inr [''a1'' \<mapsto> Annotation (sample_annotation ''strong'' (3, 3))]
   \<and> fst (anno_range (sample_annotation ''strong'' (3, 3)))
       = snd (anno_range (sample_annotation ''strong'' (3, 3)))"
  by (simp add: transform'_def expand_flags_def defaultBehavior_def sample_annotation_def
      isOnNodeStart_def range_untouched_def)

text \<open>
  In general: when the range transformation reports no change, \<open>_transform\<close> leaves the
  graph as it is, whatever the stored range.
\<close>

lemma transform_unchanged_keeps:
  "rt (anno_range a) d (fst (expand_flags self a)) (snd (expand_flags self a)) = (newRange, False)
   \<Longrightarrow> transform' rt self (Update p d) a g = Inr g"
  by (cases "expand_flags self a") (simp add: transform'_def)

text \<open>
  C4, amended. Let \<open>a\<close> be an annotation of the graph. If an update of the property \<open>a\<close> is
  anchored to is co-transformed against \<open>a\<close>, the range transformation reports a
  change, and the transformed range has equal start and end, then \<open>a\<close> is absent from
  the graph afterwards. And whatever the operation, \<open>_transform\<close> never stores a
  collapsed range: a range of \<open>a\<close> that differs afterwards from the one before has
  different start and end.
\<close>

theorem transform_collapse:
  assumes "g (anno_id a) = Some (Annotation a)"
  shows
    "(anno_path a = p
        \<and> rt (anno_range a) d (fst (expand_flags self a)) (snd (expand_flags self a)) = (newRange, True)
        \<and> fst newRange = snd newRange
      \<longrightarrow> (\<exists>g'. transform' rt self (Update p d) a g = Inr g' \<and> g' (anno_id a) = None))
     \<and> (\<forall>g' a'. transform' rt self op a g = Inr g'
            \<and> g' (anno_id a) = Some (Annotation a')
            \<and> anno_range a' \<noteq> anno_range a
          \<longrightarrow> fst (anno_range a') \<noteq> snd (anno_range a'))"
proof -
  have del: "delete' a g = Inr (g(anno_id a := None))"
    using assms by (simp add: delete'_def graph_delete_def)
  have setr: "graph_set_range (anno_id a) r g = Inr (g(anno_id a \<mapsto> Annotation (a\<lparr>anno_range := r\<rparr>)))" for r
    using assms by (simp add: graph_set_range_def)
  have one: "anno_path a = p
        \<and> rt (anno_range a) d (fst (expand_flags self a)) (snd (expand_flags self a)) = (newRange, True)
        \<and> fst newRange = snd newRange
      \<longrightarrow> (\<exists>g'. transform' rt self (Update p d) a g = Inr g' \<and> g' (anno_id a) = None)"
    by (auto simp: transform'_def del split: prod.splits)
  have two: "fst (anno_range a') \<noteq> snd (anno_range a')"
    if "transform' rt self op a g = Inr g'" "g' (anno_id a) = Some (Annotation a')"
       "anno_range a' \<noteq> anno_range a" for g' a'
    using that assms
    by (cases op) (auto simp: transform'_def del setr split: if_splits prod.splits)
  show ?thesis using one two by blast
qed

text \<open>
  Two runs on the annotation \<open>[4,13]\<close>: a deletion that shrinks it to \<open>[4,4]\<close> removes it;
  an insertion of one character before it moves it to \<open>[5,14]\<close>, which is stored.
\<close>

theorem transform_collapse_witness:
  "transform' range_emptied defaultBehavior
     (Update [''text_1'', ''content''] (TextDiff [Retain 4, DeleteRun ''some text'']))
     (sample_annotation ''strong'' (4, 13))
     [''a1'' \<mapsto> Annotation (sample_annotation ''strong'' (4, 13))] = Inr Map.empty
   \<and> transform' range_moved_right defaultBehavior
     (Update [''text_1'', ''content''] (TextDiff [Retain 2, InsertRun ''x'']))
     (sample_annotation ''strong'' (4, 13))
     [''a1'' \<mapsto> Annotation (sample_annotation ''strong'' (4, 13))]
     = Inr [''a1'' \<mapsto> Annotation (sample_annotation ''strong'' (5, 14))]
   \<and> fst (anno_range (sample_annotation ''strong'' (5, 14)))
       \<noteq> snd (anno_range (sample_annotation ''strong'' (5, 14)))"
  using transform_collapse [of "[''a1'' \<mapsto> Annotation (sample_annotation ''strong'' (4, 13))]"
      "sample_annotation ''strong'' (4, 13)"
      "[''text_1'', ''content'']" range_emptied
      "TextDiff [Retain 4, DeleteRun ''some text'']" defaultBehavior "(4, 4)"
      "Update [''text_1'', ''content''] (TextDiff [Retain 2, InsertRun ''x''])"]
  by (simp add: sample_annotation_def transform'_def expand_flags_def defaultBehavior_def
      isOnNodeStart_def delete'_def graph_delete_def graph_set_range_def
      range_emptied_def range_moved_right_def)

subsection \<open>Exclusivity\<close>

text \<open>
  The claim as the spec words it fails for a type that is in no group: \<open>code\<close> is not
  in the group mapping of the default behaviour, and \<open>isExclusive\<close> holds of it and
  itself.
\<close>

theorem isExclusive_unmapped_counterexample:
  "isExclusive defaultBehavior ''code'' ''code''
   \<and> \<not> same_configured_group defaultBehavior ''code'' ''code''"
  by (simp add: isExclusive_def same_configured_group_def defaultBehavior_def)

text \<open>
  C8, amended. When at least one of the two types is in the group mapping,
  \<open>isExclusive(t1, t2)\<close> is true iff both map to the same configured group (so a mapped
  and an unmapped type are not exclusive); and every type, mapped or not, is exclusive
  with itself, which is what lets \<open>annotate\<close> toggle an annotation of the same type.
\<close>

theorem isExclusive_same_group:
  "(groups self t1 \<noteq> None \<or> groups self t2 \<noteq> None
      \<longrightarrow> isExclusive self t1 t2 = same_configured_group self t1 t2)
   \<and> isExclusive self t t"
  by (auto simp: isExclusive_def same_configured_group_def split: option.splits)

theorem isExclusive_same_group_witness:
  "groups defaultBehavior ''strong'' \<noteq> None
   \<and> isExclusive defaultBehavior ''strong'' ''emphasis''
   \<and> same_configured_group defaultBehavior ''strong'' ''emphasis''
   \<and> \<not> isExclusive defaultBehavior ''strong'' ''idea''
   \<and> \<not> isExclusive defaultBehavior ''strong'' ''code''
   \<and> isExclusive defaultBehavior ''code'' ''code''"
  using isExclusive_same_group [of defaultBehavior "''strong''" "''emphasis''" "''code''"]
    isExclusive_same_group [of defaultBehavior "''strong''" "''idea''" "''code''"]
    isExclusive_same_group [of defaultBehavior "''strong''" "''code''" "''code''"]
  by (simp add: same_configured_group_def defaultBehavior_def)

subsection \<open>Hiding nodes of a view\<close>

lemma indexOf_absent: "n \<notin> set xs \<Longrightarrow> indexOf xs n = - 1"
  by (induction xs) (auto simp: Let_def)

lemma indexOf_present:
  "n \<in> set xs \<Longrightarrow> 0 \<le> indexOf xs n \<and> nat (indexOf xs n) < length xs \<and> xs ! nat (indexOf xs n) = n"
proof (induction xs)
  case Nil
  then show ?case by simp
next
  case (Cons x xs)
  show ?case
  proof (cases "x = n")
    case True
    then show ?thesis by simp
  next
    case False
    with Cons have ih: "0 \<le> indexOf xs n" "nat (indexOf xs n) < length xs" "xs ! nat (indexOf xs n) = n"
      by auto
    then show ?thesis using False
      by (simp add: Let_def nat_add_distrib)
  qed
qed

lemma collect_indexes_set:
  "set (collect_indexes vs ns) = (\<lambda>n. nat (indexOf vs n)) ` (set ns \<inter> set vs)"
proof (induction ns)
  case Nil
  then show ?case by simp
next
  case (Cons n ns)
  show ?case
  proof (cases "n \<in> set vs")
    case True
    then have "0 \<le> indexOf vs n" using indexOf_present by blast
    then show ?thesis using Cons True by (auto simp: Let_def)
  next
    case False
    then have "indexOf vs n = - 1" by (rule indexOf_absent)
    then show ?thesis using Cons False by (auto simp: Let_def)
  qed
qed

lemma collect_indexes_Nil: "set ns \<inter> set vs = {} \<Longrightarrow> collect_indexes vs ns = []"
  using collect_indexes_set[of vs ns] by simp

text \<open>When none of the given ids occurs in the view, \<open>hide\<close> applies nothing and the
  document is as before.\<close>

lemma hide_nothing:
  assumes "nodes d viewId = Some (Container ci ct vs)" and "set ns \<inter> set vs = {}"
  shows "hide viewId ns d = Inr d"
  using assms by (simp add: hide_def collect_indexes_Nil)

lemma sort_insert_small:
  "x < 10 \<Longrightarrow> \<forall>y\<in>set ys. y < 10 \<Longrightarrow> sort_insert x ys = insort x ys"
  by (induction ys) auto

lemma sort_default_small:
  "\<forall>x\<in>set xs. x < 10 \<Longrightarrow> sort_default xs = sort xs"
proof (induction xs)
  case Nil
  then show ?case by simp
next
  case (Cons x xs)
  then have "sort_default xs = sort xs" by simp
  moreover have "\<forall>y\<in>set (sort xs). y < 10" using Cons.prems by simp
  ultimately show ?case using Cons.prems by (simp add: sort_insert_small)
qed

lemma uniq_loop_set: "set (uniq_loop xs acc) = set xs \<union> set acc"
  by (induction xs arbitrary: acc) auto

lemma uniq_loop_desc:
  "sorted_wrt (>) acc \<Longrightarrow> sorted_wrt (\<ge>) xs \<Longrightarrow> \<forall>a\<in>set acc. \<forall>x\<in>set xs. a \<ge> x \<Longrightarrow>
   sorted_wrt (>) (uniq_loop xs acc)"
proof (induction xs arbitrary: acc)
  case Nil
  then show ?case by simp
next
  case (Cons x xs)
  show ?case
  proof (cases "x \<in> set acc")
    case True
    then show ?thesis using Cons by simp
  next
    case False
    have "sorted_wrt (>) (acc @ [x])"
      using Cons.prems False by (auto simp: sorted_wrt_append) (metis le_neq_implies_less list.set_intros(1))
    moreover have "\<forall>a\<in>set (acc @ [x]). \<forall>y\<in>set xs. a \<ge> y"
      using Cons.prems by auto
    ultimately show ?thesis using Cons False by simp
  qed
qed

lemma delete_position_distinct:
  "distinct xs \<Longrightarrow> j < length xs \<Longrightarrow> take j xs @ drop (Suc j) xs = filter (\<lambda>x. x \<noteq> xs ! j) xs"
proof (induction xs arbitrary: j)
  case Nil
  then show ?case by simp
next
  case (Cons x xs)
  show ?case
  proof (cases j)
    case 0
    have "filter (\<lambda>y. y \<noteq> x) xs = xs"
      using Cons.prems by (auto simp: filter_id_conv)
    then show ?thesis using 0 by simp
  next
    case (Suc k)
    then have "x \<noteq> xs ! k" using Cons.prems by auto
    then show ?thesis using Cons Suc by simp
  qed
qed

lemma apply_deletes_desc:
  "sorted_wrt (>) js \<Longrightarrow> \<forall>j\<in>set js. j < length xs \<and> xs ! j = vs ! j \<Longrightarrow> distinct xs \<Longrightarrow>
   apply_array_ops (map (\<lambda>i. ArrayDelete i (vs ! i)) js) xs
     = Inr (filter (\<lambda>x. x \<notin> (\<lambda>i. vs ! i) ` set js) xs)"
proof (induction js arbitrary: xs)
  case Nil
  then show ?case by simp
next
  case (Cons j js)
  let ?xs' = "take j xs @ drop (Suc j) xs"
  have j: "j < length xs" "xs ! j = vs ! j" using Cons.prems(2) by auto
  have xs': "?xs' = filter (\<lambda>x. x \<noteq> vs ! j) xs"
    using delete_position_distinct[OF Cons.prems(3) j(1)] j(2) by simp
  have step: "apply_array_op (ArrayDelete j (vs ! j)) xs = Inr ?xs'"
    using j by simp
  have lt: "\<forall>k\<in>set js. k < j" using Cons.prems(1) by auto
  have inv: "\<forall>k\<in>set js. k < length ?xs' \<and> ?xs' ! k = vs ! k"
  proof
    fix k assume k: "k \<in> set js"
    then have kj: "k < j" using lt by blast
    have "xs ! k = vs ! k" using Cons.prems(2) k by auto
    moreover have "?xs' ! k = xs ! k" using kj j(1) by (simp add: nth_append)
    moreover have "k < length ?xs'" using kj j(1) by simp
    ultimately show "k < length ?xs' \<and> ?xs' ! k = vs ! k" by simp
  qed
  have d': "distinct ?xs'" unfolding xs' using Cons.prems(3) by simp
  have "sorted_wrt (>) js" using Cons.prems(1) by simp
  from Cons.IH[OF this inv d']
  have "apply_array_ops (map (\<lambda>i. ArrayDelete i (vs ! i)) js) ?xs'
          = Inr (filter (\<lambda>x. x \<notin> (\<lambda>i. vs ! i) ` set js) ?xs')" .
  then show ?case using step unfolding xs' by (simp add: conj_commute)
qed


lemma hide_ops_small:
  assumes "length vs \<le> 10" and "distinct vs"
  shows "apply_array_ops (hide_ops vs (collect_indexes vs ns)) vs
           = Inr (filter (\<lambda>x. x \<notin> set ns) vs)"
proof -
  let ?idx = "collect_indexes vs ns"
  let ?js = "uniq (rev (sort_default ?idx))"
  have idx_set: "set ?idx = (\<lambda>n. nat (indexOf vs n)) ` (set ns \<inter> set vs)"
    by (rule collect_indexes_set)
  have idx_lt: "\<forall>i\<in>set ?idx. i < length vs"
    using idx_set indexOf_present by auto
  then have small: "\<forall>i\<in>set ?idx. i < 10" using assms(1) by auto
  have srt: "sort_default ?idx = sort ?idx" by (rule sort_default_small[OF small])
  have "sorted_wrt (\<le>) (sort ?idx)" using sorted_sort[of ?idx] by simp
  then have desc: "sorted_wrt (\<ge>) (rev (sort ?idx))" by (simp add: sorted_wrt_rev)
  have js_desc: "sorted_wrt (>) ?js"
    unfolding uniq_def srt by (rule uniq_loop_desc) (use desc in simp_all)
  have js_set: "set ?js = set ?idx"
    unfolding uniq_def srt by (simp add: uniq_loop_set)
  have inv: "\<forall>j\<in>set ?js. j < length vs \<and> vs ! j = vs ! j"
    using js_set idx_lt by simp
  have img: "(\<lambda>i. vs ! i) ` set ?js = set ns \<inter> set vs"
  proof -
    have "(\<lambda>i. vs ! i) ` set ?js = (\<lambda>n. vs ! nat (indexOf vs n)) ` (set ns \<inter> set vs)"
      unfolding js_set idx_set by (simp add: image_image)
    also have "\<dots> = (\<lambda>n. n) ` (set ns \<inter> set vs)"
      by (rule image_cong) (use indexOf_present in auto)
    finally show ?thesis by simp
  qed
  have "apply_array_ops (map (\<lambda>i. ArrayDelete i (vs ! i)) ?js) vs
          = Inr (filter (\<lambda>x. x \<notin> (\<lambda>i. vs ! i) ` set ?js) vs)"
    by (rule apply_deletes_desc[OF js_desc inv assms(2)])
  moreover have "filter (\<lambda>x. x \<notin> set ns \<inter> set vs) vs = filter (\<lambda>x. x \<notin> set ns) vs"
    by (rule filter_cong) auto
  ultimately show ?thesis unfolding hide_ops_def img by simp
qed

text \<open>
  For a view of at most ten nodes, all different, \<open>hide\<close> does what it is meant to do:
  the view keeps exactly the nodes that are not among the given ids, in their order,
  and the listeners see the one update.
\<close>

lemma hide_small_view:
  assumes "nodes d viewId = Some (Container ci ct vs)"
    and "length vs \<le> 10" and "distinct vs" and "set ns \<inter> set vs \<noteq> {}"
  shows "hide viewId ns d =
     Inr (d\<lparr>nodes := (nodes d)(viewId \<mapsto> Container ci ct (filter (\<lambda>x. x \<notin> set ns) vs)),
            applied := applied d @
              [Update [viewId, ''nodes'']
                 (ArrayDiff (ArrayCompound (hide_ops vs (collect_indexes vs ns))))]\<rparr>)"
proof -
  have "set (collect_indexes vs ns) \<noteq> {}"
    using assms(4) by (simp add: collect_indexes_set)
  then have ne: "collect_indexes vs ns \<noteq> []" by auto
  show ?thesis
    using assms(1) ne hide_ops_small[OF assms(2,3), of ns]
    by (simp add: hide_def doc_apply_def)
qed

text \<open>
  C9. \<open>hide\<close> is meant to remove exactly the given ids from the view. In a view of
  eleven nodes, hiding \<open>n2\<close> and \<open>n10\<close> collects the positions 2 and 10; the
  default sort orders them as strings (\<open>10\<close> before \<open>2\<close>), so after the reversal the
  deletes come in ascending order: position 2 first, then position 10 of a sequence
  that has only ten elements left. The array operation is refused and the view keeps
  all its nodes.
\<close>

theorem hide_multi_digit:
  "hide_ops [''n0'', ''n1'', ''n2'', ''n3'', ''n4'', ''n5'', ''n6'', ''n7'', ''n8'', ''n9'', ''n10'']
      (collect_indexes [''n0'', ''n1'', ''n2'', ''n3'', ''n4'', ''n5'', ''n6'', ''n7'', ''n8'', ''n9'', ''n10'']
         [''n2'', ''n10''])
     = [ArrayDelete 2 ''n2'', ArrayDelete 10 ''n10'']
   \<and> hide ''content'' [''n2'', ''n10''] sample_view = Inl OperationError"
  by (simp add: hide_def hide_ops_def uniq_def sample_view_def empty_document_def doc_apply_def)

text \<open>With single-digit positions the same call shape works: hiding \<open>n2\<close> and \<open>n9\<close>
  deletes position 9, then position 2.\<close>

lemma hide_single_digit:
  "hide ''content'' [''n2'', ''n9''] sample_view =
     Inr (sample_view
            \<lparr>nodes := [''content'' \<mapsto> Container ''content'' ''view''
               [''n0'', ''n1'', ''n3'', ''n4'', ''n5'', ''n6'', ''n7'', ''n8'', ''n10'']],
             applied := [Update [''content'', ''nodes'']
               (ArrayDiff (ArrayCompound [ArrayDelete 9 ''n9'', ArrayDelete 2 ''n2'']))]\<rparr>)"
  by (simp add: hide_def hide_ops_def uniq_def sample_view_def empty_document_def doc_apply_def)

subsection \<open>Nested transactions\<close>

text \<open>The newer document class refuses a transaction while one is open.\<close>

lemma v_startTransaction_nested:
  "isTransacting d \<Longrightarrow> v_startTransaction d = Inl NestedTransactionError"
  by (simp add: v_startTransaction_def)

lemma startTransaction_total: "\<exists>t. startTransaction d = Inr t \<and> transacting t"
  by (simp add: startTransaction_def new_cow_graph_def)

text \<open>
  C6. Starting a transaction on a graph that already has an open one is meant to fail.
  \<open>startTransaction\<close> of src/src/document.js has no such check: a second transaction on the
  same document succeeds, and so does a transaction started on the shadow itself.
\<close>

theorem startTransaction_nested:
  "(case startTransaction sample_view of
      Inl e \<Rightarrow> False
    | Inr t1 \<Rightarrow>
        transacting t1
        \<and> (case startTransaction sample_view of Inl e \<Rightarrow> False | Inr t2 \<Rightarrow> transacting t2)
        \<and> (case startTransaction t1 of Inl e \<Rightarrow> False | Inr t3 \<Rightarrow> transacting t3))"
  by (simp add: startTransaction_def new_cow_graph_def)

subsection \<open>Snapshots\<close>

text \<open>
  C7. For every document \<open>d\<close>, \<open>fromSnapshot(d.toJSON())\<close> holds the same node ids as \<open>d\<close>,
  and under every id the same node: the same type and the same property values.
\<close>

theorem snapshot_roundtrip:
  "dom (nodes (fromSnapshot (toJSON d) opts)) = dom (nodes d)
   \<and> nodes (fromSnapshot (toJSON d) opts) i = nodes d i
   \<and> map_option node_type (nodes (fromSnapshot (toJSON d) opts) i) = map_option node_type (nodes d i)"
  by (simp add: fromSnapshot_def toJSON_def graph_toJSON_def new_document_def new_graph_def Let_def)

subsection \<open>Committing a transaction\<close>

lemma flatten_atomic:
  "list_all atomic (flatten_op x)" "list_all atomic (flatten xs)"
  by (induction x and xs rule: flatten_op_flatten.induct) simp_all

lemma save_loop_eq: "save_loop os acc = acc @ concat (map components os)"
proof (induction os arbitrary: acc)
  case Nil
  then show ?case by simp
next
  case (Cons o1 os)
  then show ?case by (cases o1) simp_all
qed

lemma components_atomic:
  "list_all (\<lambda>x. list_all atomic (components x)) os \<Longrightarrow> list_all atomic (concat (map components os))"
  by (induction os) simp_all

lemma graph_exec_all_append:
  "graph_exec_all (xs @ ys) g =
     (case graph_exec_all xs g of Inl e \<Rightarrow> Inl e | Inr g' \<Rightarrow> graph_exec_all ys g')"
  by (induction xs arbitrary: g) (simp_all split: sum.splits)

lemma graph_exec_flatten:
  "graph_exec_all (flatten_op x) g = graph_exec x g"
  "graph_exec_all (flatten xs) g = graph_exec_all xs g"
proof (induction x and xs arbitrary: g and g rule: flatten_op_flatten.induct)
  case (7 o1 os)
  then show ?case by (simp add: graph_exec_all_append split: sum.splits)
qed (simp_all split: sum.splits)


lemma save_def_cases:
  "save exec w =
     (if \<not> transacting (shadow w) then (w, None)
      else if ops (shadow w) = []
        then (w\<lparr>original := (original w)\<lparr>fileData := fileData (original w) ++ fileData (shadow w)\<rparr>\<rparr>, None)
      else (case exec (Compound (flatten (ops (shadow w))) None) (nodes (original w)) of
              Inl e \<Rightarrow> (w\<lparr>original := (original w)\<lparr>fileData := fileData (original w) ++ fileData (shadow w)\<rparr>\<rparr>, Some e)
            | Inr g \<Rightarrow>
                (w\<lparr>original := (original w)\<lparr>fileData := fileData (original w) ++ fileData (shadow w),
                       nodes := g,
                       applied := applied (original w) @ [Compound (flatten (ops (shadow w))) None]\<rparr>\<rparr>, None)))"
  by (simp add: save_def Let_def doc_apply_def split: sum.splits)

lemma simulation_save_cases:
  "simulation_save exec meta w =
     (if concat (map components (ops (shadow w))) = []
        then (w\<lparr>original := (original w)\<lparr>fileData := fileData (original w) ++ fileData (shadow w)\<rparr>\<rparr>, None)
      else (case exec (Compound (concat (map components (ops (shadow w))))
                         (if data_given meta then meta else None)) (nodes (original w)) of
              Inl e \<Rightarrow> (w\<lparr>original := (original w)\<lparr>fileData := fileData (original w) ++ fileData (shadow w)\<rparr>\<rparr>, Some e)
            | Inr g \<Rightarrow>
                (w\<lparr>original := (original w)\<lparr>fileData := fileData (original w) ++ fileData (shadow w),
                       nodes := g,
                       applied := applied (original w) @
                         [Compound (concat (map components (ops (shadow w))))
                            (if data_given meta then meta else None)]\<rparr>\<rparr>, None)))"
  by (simp add: simulation_save_def Let_def doc_apply_def save_loop_eq split: sum.splits)


text \<open>
  With the graph semantics above, replaying the flattened log does what the logged
  operations did one by one.
\<close>

lemma graph_exec_compound_flatten:
  "graph_exec (Compound (flatten xs) d) g = graph_exec_all xs g"
  by (simp add: graph_exec_flatten)

text \<open>
  All or nothing, for the graph semantics above: as long as the log of the shadow
  replays on the original's graph to the shadow's graph (which holds when the
  transaction starts and is kept by every successful \<open>apply\<close> on the shadow), saving
  succeeds and leaves the original with exactly the shadow's graph.
\<close>

lemma graph_exec_components: "graph_exec_all (components x) g = graph_exec x g"
  by (cases x) (simp_all split: sum.splits)

lemma graph_exec_one_level:
  "graph_exec_all (concat (map components xs)) g = graph_exec_all xs g"
  by (induction xs arbitrary: g)
    (simp_all add: graph_exec_all_append graph_exec_components split: sum.splits)

lemma startTransaction_log:
  "startTransaction d = Inr t \<Longrightarrow> graph_exec_all (ops t) (nodes d) = Inr (nodes t)"
  by (auto simp: startTransaction_def new_cow_graph_def)

lemma shadow_apply_log:
  assumes "shadow_apply graph_exec op w = Inr w'"
    and "graph_exec_all (ops (shadow w)) (nodes (original w)) = Inr (nodes (shadow w))"
  shows "graph_exec_all (ops (shadow w')) (nodes (original w')) = Inr (nodes (shadow w'))"
  using assms
  by (auto simp: shadow_apply_def doc_apply_def graph_exec_all_append split: sum.splits)

lemma save_reflects_all:
  assumes "transacting (shadow w)"
    and "graph_exec_all (ops (shadow w)) (nodes (original w)) = Inr (nodes (shadow w))"
  shows "snd (save graph_exec w) = None
         \<and> nodes (original (fst (save graph_exec w))) = nodes (shadow w)"
  using assms by (auto simp: save_def_cases graph_exec_flatten)

lemma startSimulation_log:
  "graph_exec_all (ops (shadow (startSimulation d))) (nodes (original (startSimulation d)))
     = Inr (nodes (shadow (startSimulation d)))"
  by (simp add: startSimulation_def fromSnapshot_def toJSON_def graph_toJSON_def new_document_def new_graph_def)

lemma simulation_apply_log:
  assumes "simulation_apply graph_exec op w = (w', None)"
    and "graph_exec_all (ops (shadow w)) (nodes (original w)) = Inr (nodes (shadow w))"
  shows "graph_exec_all (ops (shadow w')) (nodes (original w')) = Inr (nodes (shadow w'))"
  using assms
  by (auto simp: simulation_apply_def doc_apply_def Let_def graph_exec_all_append split: sum.splits)

lemma simulation_save_reflects_all:
  assumes "graph_exec_all (ops (shadow w)) (nodes (original w)) = Inr (nodes (shadow w))"
  shows "snd (simulation_save graph_exec meta w) = None
         \<and> nodes (original (fst (simulation_save graph_exec meta w))) = nodes (shadow w)"
proof -
  have "graph_exec_all (concat (map components (ops (shadow w)))) (nodes (original w))
          = Inr (nodes (shadow w))"
    using assms by (simp add: graph_exec_one_level)
  then show ?thesis
    by (cases "concat (map components (ops (shadow w))) = []")
      (auto simp: simulation_save_cases)
qed

text \<open>
  What a commit does besides flattening. When the replay of the wrapped log on the
  original succeeds, \<open>save\<close> and \<open>simulation.save\<close> have applied exactly one compound to
  the original, so that its listeners have seen exactly one more operation; the list
  \<open>save\<close> wraps holds no compound, and the list \<open>simulation.save\<close> wraps holds none when
  no logged compound holds a compound. With an empty log neither applies anything.
  An operation applied to the shadow or to the simulation leaves the original as it
  was, so a transaction that is never saved changes nothing.
\<close>

lemma commit_once:
  "(transacting (shadow w) \<and> ops (shadow w) \<noteq> []
      \<and> exec (Compound (flatten (ops (shadow w))) None) (nodes (original w)) = Inr g
    \<longrightarrow> list_all atomic (flatten (ops (shadow w)))
        \<and> snd (save exec w) = None
        \<and> nodes (original (fst (save exec w))) = g
        \<and> applied (original (fst (save exec w))) =
            applied (original w) @ [Compound (flatten (ops (shadow w))) None])
   \<and> (concat (map components (ops (shadow w))) \<noteq> []
      \<and> exec (Compound (concat (map components (ops (shadow w))))
                (if data_given meta then meta else None)) (nodes (original w)) = Inr g
    \<longrightarrow> (list_all (\<lambda>x. list_all atomic (components x)) (ops (shadow w))
           \<longrightarrow> list_all atomic (concat (map components (ops (shadow w)))))
        \<and> snd (simulation_save exec meta w) = None
        \<and> nodes (original (fst (simulation_save exec meta w))) = g
        \<and> applied (original (fst (simulation_save exec meta w))) =
            applied (original w) @
              [Compound (concat (map components (ops (shadow w))))
                 (if data_given meta then meta else None)])
   \<and> (ops (shadow w) = []
    \<longrightarrow> snd (save exec w) = None
        \<and> nodes (original (fst (save exec w))) = nodes (original w)
        \<and> applied (original (fst (save exec w))) = applied (original w)
        \<and> snd (simulation_save exec meta w) = None
        \<and> nodes (original (fst (simulation_save exec meta w))) = nodes (original w)
        \<and> applied (original (fst (simulation_save exec meta w))) = applied (original w))
   \<and> (case shadow_apply exec op w of Inl e \<Rightarrow> True | Inr w' \<Rightarrow> original w' = original w)
   \<and> original (fst (simulation_apply exec op w)) = original w"
proof -
  have a: "list_all atomic (flatten (ops (shadow w)))" by (rule flatten_atomic)
  have b: "list_all (\<lambda>x. list_all atomic (components x)) (ops (shadow w))
           \<longrightarrow> list_all atomic (concat (map components (ops (shadow w))))"
    using components_atomic by blast
  have c: "(case shadow_apply exec op w of Inl e \<Rightarrow> True | Inr w' \<Rightarrow> original w' = original w)"
    by (simp add: shadow_apply_def split: sum.splits)
  have d: "original (fst (simulation_apply exec op w)) = original w"
    by (simp add: simulation_apply_def Let_def split: sum.splits)
  show ?thesis
    using a b c d by (simp add: save_def_cases simulation_save_cases)
qed

text \<open>
  When the replay is rejected, the exception reaches the caller of the commit and the
  original's graph and listeners are as before.
\<close>

lemma commit_rejected:
  "(transacting (shadow w) \<and> ops (shadow w) \<noteq> []
      \<and> exec (Compound (flatten (ops (shadow w))) None) (nodes (original w)) = Inl e
    \<longrightarrow> snd (save exec w) = Some e
        \<and> nodes (original (fst (save exec w))) = nodes (original w)
        \<and> applied (original (fst (save exec w))) = applied (original w))
   \<and> (concat (map components (ops (shadow w))) \<noteq> []
      \<and> exec (Compound (concat (map components (ops (shadow w))))
                (if data_given meta then meta else None)) (nodes (original w)) = Inl e
    \<longrightarrow> snd (simulation_save exec meta w) = Some e
        \<and> nodes (original (fst (simulation_save exec meta w))) = nodes (original w)
        \<and> applied (original (fst (simulation_save exec meta w))) = applied (original w))"
  by (simp add: save_def_cases simulation_save_cases)

text \<open>The \<open>data\<close> argument is attached to the compound only when it is truthy.\<close>

lemma simulation_save_data:
  "applied (original (fst (simulation_save graph_exec (Some ''undo'')
      \<lparr>original = empty_document,
       shadow = empty_document\<lparr>ops := [sample_op]\<rparr>\<rparr>)))
     = [Compound [sample_op] (Some ''undo'')]
   \<and> applied (original (fst (simulation_save graph_exec (Some [])
      \<lparr>original = empty_document,
       shadow = empty_document\<lparr>ops := [sample_op]\<rparr>\<rparr>)))
     = [Compound [sample_op] None]"
  by (simp add: simulation_save_def doc_apply_def empty_document_def sample_op_def
      graph_create_def)

lemma nested_log_world_eq:
  "nested_log_world =
     \<lparr>original = empty_document,
      shadow = empty_document
        \<lparr>nodes := [''text_1'' \<mapsto> Content ''text_1'' ''paragraph'' [(''content'', StringValue ''abc'')]],
         ops := [Compound [Compound [sample_op] None] None],
         applied := [Compound [Compound [sample_op] None] None]\<rparr>\<rparr>"
  by (simp add: nested_log_world_def simulation_apply_def startSimulation_def empty_document_def
      fromSnapshot_def toJSON_def graph_toJSON_def new_document_def new_graph_def doc_apply_def sample_op_def
      graph_create_def)

text \<open>
  C2. A commit is meant to flatten the compound operations of the log into a single
  flat operation list before it wraps them into the one compound it applies to the
  original. The loop of \<open>simulation.save\<close> opens the compounds of the log one level
  only: after a compound that holds a compound was applied to the simulation, the list
  wrapped into the committed compound still holds a compound, and that is what the
  listeners of the original are handed. \<open>save\<close> of src/src/document.js, given the same log
  on a shadow, hands them a compound of the one atomic operation.
\<close>

theorem simulation_save_keeps_nested_compound:
  "ops (shadow nested_log_world) = [Compound [Compound [sample_op] None] None]
   \<and> applied (original (fst (simulation_save graph_exec None nested_log_world)))
       = [Compound [Compound [sample_op] None] None]
   \<and> \<not> list_all atomic [Compound [sample_op] None]
   \<and> applied (original (fst (save graph_exec
        (nested_log_world\<lparr>shadow := (shadow nested_log_world)\<lparr>transacting := True\<rparr>\<rparr>))))
       = [Compound [sample_op] None]
   \<and> list_all atomic [sample_op]"
  by (simp add: nested_log_world_eq simulation_save_def save_def doc_apply_def empty_document_def
      sample_op_def graph_create_def)

subsection \<open>Listener isolation\<close>

lemma notify_loop_eq:
  "notify_loop op ls (evs, failed) =
     (evs @ concat (map (notice op) ls), failed @ filter (\<lambda>l. applied_throws l op) ls)"
  by (induction ls arbitrary: evs failed) (auto simp: notice_def)

lemma reset_loop_eq:
  "reset_loop failed evs =
     (evs @ map (\<lambda>l. Reset (listener_name l))
              (takeWhile (\<lambda>l. \<not> reset_throws l) failed
               @ take 1 (dropWhile (\<lambda>l. \<not> reset_throws l) failed)),
      (case dropWhile (\<lambda>l. \<not> reset_throws l) failed of
         [] \<Rightarrow> None
       | l # ls \<Rightarrow> Some (ListenerError (listener_name l))))"
  by (induction failed arbitrary: evs) auto

lemma onOperationApplied_trace:
  assumes "transactionChanges d = Some changes"
  shows "onOperationApplied op d =
     (d\<lparr>transactionChanges := Some (change_map_update op changes),
        events := events d @ concat (map (notice op) (operationListeners d))
          @ map (\<lambda>l. Reset (listener_name l))
              (takeWhile (\<lambda>l. \<not> reset_throws l) (filter (\<lambda>l. applied_throws l op) (operationListeners d))
               @ take 1 (dropWhile (\<lambda>l. \<not> reset_throws l)
                           (filter (\<lambda>l. applied_throws l op) (operationListeners d))))\<rparr>,
      (case dropWhile (\<lambda>l. \<not> reset_throws l) (filter (\<lambda>l. applied_throws l op) (operationListeners d)) of
         [] \<Rightarrow> None
       | l # ls \<Rightarrow> Some (ListenerError (listener_name l))))"
  using assms by (simp add: onOperationApplied_def change_map_update_def Let_def notify_loop_eq reset_loop_eq)

text \<open>
  When no failed listener throws from \<open>reset()\<close>, the claim holds as worded: nothing
  reaches the caller, every listener is invoked and every failed one is reset.
\<close>

lemma listeners_all_reset:
  assumes "transactionChanges d = Some changes"
    and "\<forall>l\<in>set (operationListeners d). applied_throws l op \<longrightarrow> \<not> reset_throws l"
    and "onOperationApplied op d = (d', err)"
  shows "err = None \<and> data d' = data d
    \<and> (\<forall>l\<in>set (operationListeners d). Invoked (listener_name l) op \<in> set (events d'))
    \<and> (\<forall>l\<in>set (operationListeners d).
          applied_throws l op \<longrightarrow> Reset (listener_name l) \<in> set (events d'))"
proof -
  let ?failed = "filter (\<lambda>l. applied_throws l op) (operationListeners d)"
  have nt: "\<forall>l\<in>set ?failed. \<not> reset_throws l" using assms(2) by auto
  have tw: "takeWhile (\<lambda>l. \<not> reset_throws l) ?failed = ?failed"
    using nt by (simp add: takeWhile_eq_all_conv)
  have dw: "dropWhile (\<lambda>l. \<not> reset_throws l) ?failed = []"
    using nt by (simp add: dropWhile_eq_Nil_conv)
  from onOperationApplied_trace[OF assms(1), of op] assms(3)
  have ev: "events d' = events d @ concat (map (notice op) (operationListeners d))
              @ map (\<lambda>l. Reset (listener_name l)) ?failed"
    and er: "err = None" and da: "data d' = data d"
    by (auto simp: tw dw)
  have i: "\<forall>l\<in>set (operationListeners d). Invoked (listener_name l) op \<in> set (events d')"
    unfolding ev by (auto simp: notice_def)
  have r: "\<forall>l\<in>set (operationListeners d).
          applied_throws l op \<longrightarrow> Reset (listener_name l) \<in> set (events d')"
    unfolding ev by auto
  show ?thesis using er da i r by (intro conjI)
qed

text \<open>The mutation the data layer performed before it notified the document stays.\<close>

lemma data_apply_keeps_mutation:
  "exec op (data d) = Inr g \<Longrightarrow> transactionChanges d = Some changes \<Longrightarrow>
   data (fst (data_apply exec op d)) = g"
  by (simp add: data_apply_def onOperationApplied_trace)

text \<open>
  The claim as worded fails when a \<open>reset()\<close> throws: \<open>A\<close> and \<open>B\<close> both throw from
  \<open>onOperationApplied\<close>, the \<open>reset()\<close> of \<open>A\<close> throws, the exception reaches the caller and
  \<open>B\<close> is never reset.
\<close>

theorem reset_throws_counterexample:
  "snd (onOperationApplied sample_op
     (sample_vdocument [sample_listener ''A'' True True, sample_listener ''B'' True False]))
     = Some (ListenerError ''A'')
   \<and> Reset ''B'' \<notin> set (events (fst (onOperationApplied sample_op
     (sample_vdocument [sample_listener ''A'' True True, sample_listener ''B'' True False]))))"
  by (simp add: onOperationApplied_def change_map_update_def sample_vdocument_def sample_listener_def)

text \<open>
  C5, amended. For a document whose change map is set (a transaction has been
  started), \<open>onOperationApplied\<close> leaves the data as mutated and invokes every
  registered listener in list order, whether or not earlier ones threw; an exception
  from a listener's \<open>onOperationApplied\<close> is caught and logged and does not reach the
  caller. Afterwards the failed listeners have \<open>reset()\<close> called, in order, up to and
  including the first whose \<open>reset()\<close> throws; that exception is not caught: it reaches
  the caller and the failed listeners after it are not reset. When no \<open>reset()\<close> throws,
  every failed listener is reset and nothing reaches the caller.
\<close>

theorem listener_isolation:
  assumes "transactionChanges d = Some changes"
    and "failed = filter (\<lambda>l. applied_throws l op) (operationListeners d)"
  shows
    "(case onOperationApplied op d of
        (d', err) \<Rightarrow>
          data d' = data d
          \<and> operationListeners d' = operationListeners d
          \<and> events d' =
              events d @ concat (map (notice op) (operationListeners d))
              @ map (\<lambda>l. Reset (listener_name l))
                  (takeWhile (\<lambda>l. \<not> reset_throws l) failed
                   @ take 1 (dropWhile (\<lambda>l. \<not> reset_throws l) failed))
          \<and> err = (case dropWhile (\<lambda>l. \<not> reset_throws l) failed of
                     [] \<Rightarrow> None
                   | l # ls \<Rightarrow> Some (ListenerError (listener_name l))))"
  using assms by (simp add: onOperationApplied_trace)

theorem listener_isolation_witness:
  "onOperationApplied sample_op
     (sample_vdocument [sample_listener ''A'' True False, sample_listener ''B'' False False]) =
   ((sample_vdocument [sample_listener ''A'' True False, sample_listener ''B'' False False])
      \<lparr>transactionChanges := Some [sample_op],
       events := [Invoked ''A'' sample_op, ConsoleError ''A'', Invoked ''B'' sample_op, Reset ''A'']\<rparr>,
    None)"
  using listener_isolation [of "sample_vdocument [sample_listener ''A'' True False, sample_listener ''B'' False False]"
      "[]" "[sample_listener ''A'' True False]" sample_op]
  by (simp add: onOperationApplied_def change_map_update_def sample_vdocument_def sample_listener_def)

subsection \<open>Pasting copied annotations\<close>

lemma paste_assign_fields:
  assumes "paste_assign nn off a h = Inr h'"
  shows "\<exists>ob. objects h a = Some ob
    \<and> objects h' = (objects h)(a \<mapsto> (case nn of None \<Rightarrow> ob | Some n \<Rightarrow> ob\<lparr>path_ref := next_ref h\<rparr>))
    \<and> paths h' = (case nn of None \<Rightarrow> paths h
                     | Some n \<Rightarrow> (paths h)(next_ref h \<mapsto> set_first n (the (paths h (path_ref ob)))))
    \<and> next_ref h' = (case nn of None \<Rightarrow> next_ref h | Some n \<Rightarrow> Suc (next_ref h))
    \<and> ranges h' = (case off of None \<Rightarrow> ranges h
                      | Some k \<Rightarrow> (ranges h)(range_ref ob \<mapsto>
                          (fst (the (ranges h (range_ref ob))) + k, snd (the (ranges h (range_ref ob))) + k)))
    \<and> (nn \<noteq> None \<longrightarrow> paths h (path_ref ob) \<noteq> None)
    \<and> (off \<noteq> None \<longrightarrow> ranges h (range_ref ob) \<noteq> None)"
  using assms
  by (cases nn; cases off) (auto simp: paste_assign_def split: option.splits prod.splits)

lemma paste_Cons_None:
  assumes "paste (a # as) nn off (h, g) = (h', g', None)"
  obtains h1 g1 where "paste_assign nn off a h = Inr h1" and "create h1 a g = Inr g1"
    and "paste as nn off (h1, g1) = (h', g', None)"
  using assms by (auto split: sum.splits)

lemma create_Inr:
  assumes "create h a g = Inr g'"
  obtains v where "read_annotation h a = Some v" and "g (anno_id v) = None"
    and "g' = g(anno_id v \<mapsto> Annotation v)"
  using assms by (auto simp: create_def graph_create_def split: option.splits if_splits)

lemma frame_assign:
  assumes pa: "paste_assign nn off a h = Inr h1" and cr: "create h1 a g = Inr g1"
  shows "frame [a] h g h1 g1"
proof -
  from paste_assign_fields[OF pa] obtain ob where ob: "objects h a = Some ob"
    and o1: "objects h1 = (objects h)(a \<mapsto> (case nn of None \<Rightarrow> ob | Some n \<Rightarrow> ob\<lparr>path_ref := next_ref h\<rparr>))"
    and p1: "paths h1 = (case nn of None \<Rightarrow> paths h
                     | Some n \<Rightarrow> (paths h)(next_ref h \<mapsto> set_first n (the (paths h (path_ref ob)))))"
    and n1: "next_ref h1 = (case nn of None \<Rightarrow> next_ref h | Some n \<Rightarrow> Suc (next_ref h))"
    and r1: "ranges h1 = (case off of None \<Rightarrow> ranges h
                      | Some k \<Rightarrow> (ranges h)(range_ref ob \<mapsto>
                          (fst (the (ranges h (range_ref ob))) + k, snd (the (ranges h (range_ref ob))) + k)))"
    by (elim exE conjE)
  from cr obtain v where g1: "g (anno_id v) = None" "g1 = g(anno_id v \<mapsto> Annotation v)"
    by (rule create_Inr)
  have "next_ref h \<le> next_ref h1" using n1 by (cases nn) auto
  moreover have "\<forall>r. r < next_ref h \<longrightarrow> paths h1 r = paths h r" using p1 by (cases nn) auto
  moreover have "\<forall>b. b \<notin> set [a] \<longrightarrow> objects h1 b = objects h b" using o1 by auto
  moreover have "\<forall>b ob'. objects h1 b = Some ob' \<longrightarrow>
           (\<exists>ob. objects h b = Some ob \<and> range_ref ob' = range_ref ob)"
    using o1 ob by (cases nn) (auto split: if_splits)
  moreover have "\<forall>r. (\<forall>a\<in>set [a]. \<forall>ob. objects h a = Some ob \<longrightarrow> range_ref ob \<noteq> r) \<longrightarrow> ranges h1 r = ranges h r"
    using r1 ob by (cases off) auto
  moreover have "\<forall>i v. g i = Some v \<longrightarrow> g1 i = Some v" using g1 by auto
  ultimately show ?thesis unfolding frame_def by (intro conjI)
qed

lemma frame_trans:
  assumes f1: "frame [a] h g h1 g1" and f2: "frame as h1 g1 h' g'"
  shows "frame (a # as) h g h' g'"
proof -
  have n1: "next_ref h \<le> next_ref h1" and n2: "next_ref h1 \<le> next_ref h'"
    using f1 f2 by (simp_all add: frame_def)
  have p1: "paths h1 r = paths h r" if "r < next_ref h" for r
    using f1 that by (simp add: frame_def)
  have p2: "paths h' r = paths h1 r" if "r < next_ref h1" for r
    using f2 that by (simp add: frame_def)
  have o1: "objects h1 b = objects h b" if "b \<noteq> a" for b
    using f1 that by (simp add: frame_def)
  have o2: "objects h' b = objects h1 b" if "b \<notin> set as" for b
    using f2 that by (simp add: frame_def)
  have s1: "\<exists>ob. objects h b = Some ob \<and> range_ref ob' = range_ref ob"
    if "objects h1 b = Some ob'" for b ob'
    using f1 that unfolding frame_def by blast
  have s2: "\<exists>ob. objects h1 b = Some ob \<and> range_ref ob' = range_ref ob"
    if "objects h' b = Some ob'" for b ob'
    using f2 that unfolding frame_def by blast
  have r1: "ranges h1 r = ranges h r" if "\<forall>ob. objects h a = Some ob \<longrightarrow> range_ref ob \<noteq> r" for r
    using f1 that by (simp add: frame_def)
  have r2: "ranges h' r = ranges h1 r"
    if "\<forall>b\<in>set as. \<forall>ob. objects h1 b = Some ob \<longrightarrow> range_ref ob \<noteq> r" for r
    using f2 that unfolding frame_def by blast
  have g1: "g1 i = Some v" if "g i = Some v" for i v
    using f1 that unfolding frame_def by blast
  have g2: "g' i = Some v" if "g1 i = Some v" for i v
    using f2 that unfolding frame_def by blast
  have 1: "next_ref h \<le> next_ref h'" using n1 n2 by linarith
  have 2: "\<forall>r. r < next_ref h \<longrightarrow> paths h' r = paths h r"
  proof (intro allI impI)
    fix r assume r: "r < next_ref h"
    then have "r < next_ref h1" using n1 by linarith
    then show "paths h' r = paths h r" using p1[OF r] p2 by simp
  qed
  have 3: "\<forall>b. b \<notin> set (a # as) \<longrightarrow> objects h' b = objects h b"
    using o1 o2 by simp
  have 4: "\<forall>b ob'. objects h' b = Some ob' \<longrightarrow>
           (\<exists>ob. objects h b = Some ob \<and> range_ref ob' = range_ref ob)"
  proof (intro allI impI)
    fix b ob' assume "objects h' b = Some ob'"
    then obtain ob1 where a1: "objects h1 b = Some ob1" "range_ref ob' = range_ref ob1"
      using s2 by blast
    then obtain ob where "objects h b = Some ob" "range_ref ob1 = range_ref ob"
      using s1 by blast
    then show "\<exists>ob. objects h b = Some ob \<and> range_ref ob' = range_ref ob"
      using a1 by simp
  qed
  have 5: "\<forall>r. (\<forall>a\<in>set (a # as). \<forall>ob. objects h a = Some ob \<longrightarrow> range_ref ob \<noteq> r)
                 \<longrightarrow> ranges h' r = ranges h r"
  proof (intro allI impI)
    fix r assume r: "\<forall>a\<in>set (a # as). \<forall>ob. objects h a = Some ob \<longrightarrow> range_ref ob \<noteq> r"
    have "ranges h1 r = ranges h r" using r by (intro r1) simp
    moreover have "\<forall>b\<in>set as. \<forall>ob. objects h1 b = Some ob \<longrightarrow> range_ref ob \<noteq> r"
    proof (intro ballI allI impI)
      fix b ob1 assume b: "b \<in> set as" and o: "objects h1 b = Some ob1"
      from s1[OF o] obtain ob where "objects h b = Some ob" "range_ref ob1 = range_ref ob"
        by blast
      then show "range_ref ob1 \<noteq> r" using r b by simp
    qed
    then have "ranges h' r = ranges h1 r" by (rule r2)
    ultimately show "ranges h' r = ranges h r" by simp
  qed
  have 6: "\<forall>i v. g i = Some v \<longrightarrow> g' i = Some v"
    using g1 g2 by blast
  show ?thesis unfolding frame_def using 1 2 3 4 5 6 by (intro conjI)
qed

lemma frame_refl: "frame [] h g h g"
  by (simp add: frame_def)

lemma paste_frame:
  "paste as nn off (h, g) = (h', g', None) \<Longrightarrow> frame as h g h' g'"
proof (induction as arbitrary: h g)
  case Nil
  then show ?case by (simp add: frame_refl)
next
  case (Cons a as)
  from Cons.prems obtain h1 g1 where pa: "paste_assign nn off a h = Inr h1"
    and cr: "create h1 a g = Inr g1" and rest: "paste as nn off (h1, g1) = (h', g', None)"
    by (rule paste_Cons_None)
  show ?case
    by (rule frame_trans[OF frame_assign[OF pa cr] Cons.IH[OF rest]])
qed


lemma shifted_upd:
  "r \<noteq> None \<Longrightarrow>
   (case off of None \<Rightarrow> Some (the r) | Some k \<Rightarrow> Some (fst (the r) + k, snd (the r) + k)) = shifted off r"
  by (cases off; cases r) (auto simp: shifted_def split: prod.splits)


text \<open>
  C10. \<open>paste\<close> mutates its input. Let the given objects be distinct, no two of them
  sharing a range array, their path arrays allocated before the call, and let the call
  return normally. Then for every given object: its own range array holds both ends
  incremented by the offset when one is given; when a new node id is given, its \<open>path\<close>
  is a fresh array holding the old path with the new id as first element, and the old
  path array is untouched; and the document holds, under the object's id, the
  annotation as the mutated object reads. So the caller's objects are changed by the
  call: a second paste would shift them again.
\<close>

theorem paste_mutates_input:
  assumes "distinct as"
    and "inj_on (\<lambda>a. range_ref (the (objects h a))) (set as)"
    and "\<forall>a\<in>set as. path_ref (the (objects h a)) < next_ref h"
    and "paste as newNodeId offset (h, g) = (h', g', None)"
  shows "\<forall>a\<in>set as. pasted newNodeId offset h h' g' a"
  using assms
proof (induction as arbitrary: h g)
  case Nil
  then show ?case by simp
next
  case (Cons a as)
  from Cons.prems(4) obtain h1 g1 where pa: "paste_assign newNodeId offset a h = Inr h1"
    and cr: "create h1 a g = Inr g1" and rest: "paste as newNodeId offset (h1, g1) = (h', g', None)"
    by (rule paste_Cons_None)
  from paste_assign_fields[OF pa] obtain ob where ob: "objects h a = Some ob"
    and o1: "objects h1 = (objects h)(a \<mapsto> (case newNodeId of None \<Rightarrow> ob | Some n \<Rightarrow> ob\<lparr>path_ref := next_ref h\<rparr>))"
    and p1: "paths h1 = (case newNodeId of None \<Rightarrow> paths h
                     | Some n \<Rightarrow> (paths h)(next_ref h \<mapsto> set_first n (the (paths h (path_ref ob)))))"
    and n1: "next_ref h1 = (case newNodeId of None \<Rightarrow> next_ref h | Some n \<Rightarrow> Suc (next_ref h))"
    and r1: "ranges h1 = (case offset of None \<Rightarrow> ranges h
                      | Some k \<Rightarrow> (ranges h)(range_ref ob \<mapsto>
                          (fst (the (ranges h (range_ref ob))) + k, snd (the (ranges h (range_ref ob))) + k)))"
    and pv: "newNodeId \<noteq> None \<longrightarrow> paths h (path_ref ob) \<noteq> None"
    and rv: "offset \<noteq> None \<longrightarrow> ranges h (range_ref ob) \<noteq> None"
    by (elim exE conjE)
  define ob1 where "ob1 = (case newNodeId of None \<Rightarrow> ob | Some n \<Rightarrow> ob\<lparr>path_ref := next_ref h\<rparr>)"
  have oh1: "objects h1 a = Some ob1" using o1 by (simp add: ob1_def)
  have ob1_same: "obj_id ob1 = obj_id ob" "obj_type ob1 = obj_type ob" "range_ref ob1 = range_ref ob"
    by (cases newNodeId; simp add: ob1_def)+
  from cr obtain v where v: "read_annotation h1 a = Some v" and gv: "g (anno_id v) = None"
    and g1: "g1 = g(anno_id v \<mapsto> Annotation v)"
    by (rule create_Inr)
  have vid: "anno_id v = obj_id ob"
    using v oh1 ob1_same by (auto simp: read_annotation_def split: option.splits)
  have f: "frame as h1 g1 h' g'" by (rule paste_frame[OF rest])
  have a_notin: "a \<notin> set as" and dist: "distinct as" using Cons.prems(1) by simp_all
  have others: "objects h1 b = objects h b" if "b \<in> set as" for b
    using o1 that a_notin by auto
  have rr_diff: "range_ref (the (objects h b)) \<noteq> range_ref ob" if "b \<in> set as" for b
  proof -
    have "b \<noteq> a" using that a_notin by auto
    then show ?thesis
      using Cons.prems(2) that ob by (auto simp: inj_on_def)
  qed
  have pr_lt: "path_ref ob < next_ref h" using Cons.prems(3) ob by simp
  have n_le: "next_ref h \<le> next_ref h1" using n1 by (cases newNodeId) auto
  \<comment> \<open>what the rest of the loop leaves alone\<close>
  have keep_obj: "objects h' a = Some ob1"
    using f a_notin oh1 by (simp add: frame_def)
  have keep_rng: "ranges h' (range_ref ob) = ranges h1 (range_ref ob)"
  proof -
    have "\<forall>b\<in>set as. \<forall>obb. objects h1 b = Some obb \<longrightarrow> range_ref obb \<noteq> range_ref ob"
    proof (intro ballI allI impI)
      fix b obb assume b: "b \<in> set as" and "objects h1 b = Some obb"
      then have "objects h b = Some obb" using others by simp
      then show "range_ref obb \<noteq> range_ref ob" using rr_diff[OF b] by simp
    qed
    then show ?thesis using f unfolding frame_def by blast
  qed
  have keep_path: "paths h' r = paths h1 r" if "r < next_ref h1" for r
    using f that by (simp add: frame_def)
  have keep_g: "g' (obj_id ob) = Some (Annotation v)"
    using f g1 vid unfolding frame_def by simp
  have rng1: "ranges h1 (range_ref ob) = shifted offset (ranges h (range_ref ob))"
  proof (cases offset)
    case None
    then show ?thesis using r1 by (simp add: shifted_def)
  next
    case (Some k)
    then obtain s e where "ranges h (range_ref ob) = Some (s, e)" using rv by fastforce
    then show ?thesis using r1 Some by (simp add: shifted_def)
  qed
  have old_path1: "paths h1 (path_ref ob) = paths h (path_ref ob)"
    using p1 pr_lt by (cases newNodeId) auto
  have new_path: "(case newNodeId of
                None \<Rightarrow> path_ref ob1 = path_ref ob
              | Some n \<Rightarrow>
                  next_ref h \<le> path_ref ob1
                  \<and> paths h' (path_ref ob1) = map_option (set_first n) (paths h (path_ref ob)))"
  proof (cases newNodeId)
    case None
    then show ?thesis by (simp add: ob1_def)
  next
    case (Some n)
    then obtain p where p: "paths h (path_ref ob) = Some p" using pv by fastforce
    have "paths h1 (next_ref h) = Some (set_first n p)" using p1 Some p by simp
    moreover have "paths h' (next_ref h) = paths h1 (next_ref h)"
      using keep_path n1 Some by simp
    ultimately show ?thesis using Some p by (simp add: ob1_def)
  qed
  have pr1_lt: "path_ref ob1 < next_ref h1"
    using n1 pr_lt by (cases newNodeId) (auto simp: ob1_def)
  have read_same: "read_annotation h' a = Some v"
    using v oh1 keep_obj keep_rng keep_path[OF pr1_lt] ob1_same
    by (simp add: read_annotation_def)
  have head: "pasted newNodeId offset h h' g' a"
    unfolding pasted_def
    using ob keep_obj ob1_same keep_rng rng1 new_path keep_path[of "path_ref ob"] old_path1
      pr_lt n_le keep_g read_same
    by simp
  \<comment> \<open>the objects handled by the rest of the loop\<close>
  have inj1: "inj_on (\<lambda>a. range_ref (the (objects h1 a))) (set as)"
  proof (rule inj_onI)
    fix x y assume "x \<in> set as" "y \<in> set as"
      and "range_ref (the (objects h1 x)) = range_ref (the (objects h1 y))"
    then show "x = y" using Cons.prems(2) others by (auto simp: inj_on_def)
  qed
  have val1: "\<forall>a\<in>set as. path_ref (the (objects h1 a)) < next_ref h1"
    using Cons.prems(3) others n_le by fastforce
  have ih: "\<forall>b\<in>set as. pasted newNodeId offset h1 h' g' b"
    by (rule Cons.IH[OF dist inj1 val1 rest])
  have tail: "pasted newNodeId offset h h' g' b" if b: "b \<in> set as" for b
  proof -
    from ih b have pb: "pasted newNodeId offset h1 h' g' b" by blast
    then obtain obb obb' where obb: "objects h1 b = Some obb" "objects h' b = Some obb'"
      by (auto simp: pasted_def split: option.splits)
    have obh: "objects h b = Some obb" using others[OF b] obb by simp
    have rdiff: "range_ref obb \<noteq> range_ref ob" using rr_diff[OF b] obh by simp
    have rsame: "ranges h1 (range_ref obb) = ranges h (range_ref obb)"
      using r1 rdiff by (cases offset) auto
    have plt: "path_ref obb < next_ref h" using Cons.prems(3) b obh by auto
    have psame: "paths h1 (path_ref obb) = paths h (path_ref obb)"
      using p1 plt by (cases newNodeId) auto
    show ?thesis
      using pb obb obh rsame psame n_le
      unfolding pasted_def
      by (cases newNodeId) auto
  qed
  show ?case using head tail by auto
qed


lemma sample_paste:
  "paste [0, 1] (Some ''text_2'') (Some 10) (sample_heap, Map.empty) = (pasted_heap, pasted_graph, None)"
  by (simp add: sample_heap_def pasted_heap_def pasted_graph_def paste_assign_def create_def
      read_annotation_def graph_create_def numeral_2_eq_2 numeral_3_eq_3)

theorem paste_mutates_input_witness:
  "paste [0, 1] (Some ''text_2'') (Some 10) (sample_heap, Map.empty) = (pasted_heap, pasted_graph, None)
   \<and> pasted (Some ''text_2'') (Some 10) sample_heap pasted_heap pasted_graph 0
   \<and> pasted (Some ''text_2'') (Some 10) sample_heap pasted_heap pasted_graph 1
   \<and> ranges sample_heap 0 = Some (0, 4) \<and> ranges pasted_heap 0 = Some (10, 14)"
proof -
  have d: "distinct [0::nat, 1]" by simp
  have i: "inj_on (\<lambda>a. range_ref (the (objects sample_heap a))) (set [0, 1])"
    by (simp add: sample_heap_def)
  have v: "\<forall>a\<in>set [0, 1]. path_ref (the (objects sample_heap a)) < next_ref sample_heap"
    by (simp add: sample_heap_def)
  have "\<forall>a\<in>set [0, 1]. pasted (Some ''text_2'') (Some 10) sample_heap pasted_heap pasted_graph a"
    by (rule paste_mutates_input [OF d i v sample_paste])
  then have "pasted (Some ''text_2'') (Some 10) sample_heap pasted_heap pasted_graph 0"
    and "pasted (Some ''text_2'') (Some 10) sample_heap pasted_heap pasted_graph 1"
    by simp_all
  moreover have "ranges sample_heap 0 = Some (0, 4)" "ranges pasted_heap 0 = Some (10, 14)"
    by (simp_all add: sample_heap_def pasted_heap_def)
  ultimately show ?thesis using sample_paste by simp
qed

text \<open>
  Pasting the same objects a second time shifts the first object once more and then
  fails on its id, which the document already holds.
\<close>

lemma paste_again:
  "(case paste [0, 1] (Some ''text_2'') (Some 10) (pasted_heap, pasted_graph) of
      (h, g, err) \<Rightarrow>
        err = Some DuplicateIdError \<and> g = pasted_graph
        \<and> ranges h 0 = Some (20, 24) \<and> ranges h 1 = Some (12, 16))"
  by (simp add: pasted_heap_def pasted_graph_def paste_assign_def create_def
      read_annotation_def graph_create_def)

end
